(* ===== verification/Prelude.thy ===== *)
theory Prelude
  imports Main "HOL-Library.Word" "HOL-Library.Sublist"
begin

text \<open>
  What every other theory of the development shares: bytes, the faults of the C abstract
  machine, the result type of an operation that may fault, sequencing of such operations,
  and decimal and hexadecimal digits as printf writes them.

  A fault is a step for which the C standard gives no meaning (an access outside an object,
  a null dereference, a format that does not fit its arguments, a signed overflow, a read of
  an indeterminate value), a failed \<open>assert\<close>, or a call of \<open>exit\<close>. An operation of the code is a function into
  \<open>fault + 'a\<close>: \<open>Inl\<close> is the fault, \<open>Inr\<close> the new state or value. Error
  returns of the code (a negative \<open>errno\<close>, a NULL) are ordinary values, never faults.
\<close>

section \<open>Collections of rules\<close>

named_theorems res_simps \<open>rewriting of sequenced faulting operations\<close>
named_theorems digit_rules \<open>facts on the characters of printed numbers\<close>

section \<open>Bytes and faults\<close>

type_synonym byte = char
type_synonym bytes = "char list"

abbreviation NUL :: byte where
  "NUL \<equiv> CHR 0x00"

datatype fault =
    OutOfBounds
  | AssertFailed
  | NullDeref
  | BadFormat
  | IntOverflow
  | DivByZero
  | Indeterminate
  | Exit nat

type_synonym 'a res = "fault + 'a"

definition and_then :: "'a res \<Rightarrow> ('a \<Rightarrow> 'b res) \<Rightarrow> 'b res" where
  "and_then m k = (case m of Inl e \<Rightarrow> Inl e | Inr x \<Rightarrow> k x)"

lemma and_then_simps [simp, res_simps]:
  "and_then (Inr x) k = k x"
  "and_then (Inl e) k = Inl e"
  by (simp_all add: and_then_def)

lemma and_then_Inr_iff [res_simps]:
  "and_then m k = Inr y \<longleftrightarrow> (\<exists>x. m = Inr x \<and> k x = Inr y)"
  by (simp add: and_then_def split: sum.splits)

lemma and_then_assoc:
  "and_then (and_then m k) h = and_then m (\<lambda>x. and_then (k x) h)"
  by (simp add: and_then_def split: sum.splits)

lemma and_then_cong [fundef_cong]:
  "\<lbrakk>m = m'; \<And>x. m' = Inr x \<Longrightarrow> k x = k' x\<rbrakk> \<Longrightarrow> and_then m k = and_then m' k'"
  by (auto simp: and_then_def split: sum.splits)

text \<open>
  Partial correctness of one operation, with a rule for each way of putting operations together: a fault
  satisfies every postcondition.
\<close>

definition yields :: "('a \<Rightarrow> bool) \<Rightarrow> 'a res \<Rightarrow> bool" where
  "yields P m \<longleftrightarrow> (\<forall>x. m = Inr x \<longrightarrow> P x)"

lemma yieldsD: "yields P m \<Longrightarrow> m = Inr x \<Longrightarrow> P x"
  by (simp add: yields_def)

lemma yields_Inr: "P x \<Longrightarrow> yields P (Inr x)"
  by (simp add: yields_def)

lemma yields_Inl: "yields P (Inl e)"
  by (simp add: yields_def)

lemma yields_seq: "yields P m \<Longrightarrow> (\<And>x. m = Inr x \<Longrightarrow> P x \<Longrightarrow> yields Q (k x)) \<Longrightarrow> yields Q (and_then m k)"
  by (auto simp: yields_def and_then_Inr_iff)

text \<open>The rules that split an operation without a condition on what happens in between.\<close>

lemma yields_splits:
  "(\<And>x. m = Inr x \<Longrightarrow> yields P (k x)) \<Longrightarrow> yields P (and_then m k)"
  "(b \<Longrightarrow> yields P m1) \<Longrightarrow> (\<not> b \<Longrightarrow> yields P m2) \<Longrightarrow> yields P (if b then m1 else m2)"
  "(v = None \<Longrightarrow> yields P n) \<Longrightarrow> (\<And>x. v = Some x \<Longrightarrow> yields P (f x)) \<Longrightarrow> yields P (case v of None \<Rightarrow> n | Some x \<Rightarrow> f x)"
  "(\<And>a b. q = (a, b) \<Longrightarrow> yields P (g a b)) \<Longrightarrow> yields P (case q of (a, b) \<Rightarrow> g a b)"
  by (auto simp: yields_def and_then_Inr_iff split: option.splits prod.splits)

lemma yields_mono: "yields P m \<Longrightarrow> (\<And>x. P x \<Longrightarrow> Q x) \<Longrightarrow> yields Q m"
  by (simp add: yields_def)

text \<open>Reading an array at an index: outside the array the C program has no meaning.\<close>

definition at :: "'a list \<Rightarrow> nat \<Rightarrow> 'a res" where
  "at xs i = (if i < length xs then Inr (xs ! i) else Inl OutOfBounds)"

lemma at_in [simp]: "i < length xs \<Longrightarrow> at xs i = Inr (xs ! i)"
  by (simp add: at_def)

lemma at_out [simp]: "\<not> i < length xs \<Longrightarrow> at xs i = Inl OutOfBounds"
  by (simp add: at_def)

lemma at_Inr_iff: "at xs i = Inr x \<longleftrightarrow> i < length xs \<and> x = xs ! i"
  by (auto simp: at_def)

section \<open>Digits\<close>

definition digit_char :: "nat \<Rightarrow> byte" where
  "digit_char d = char_of (48 + d)"

definition is_digit :: "byte \<Rightarrow> bool" where
  "is_digit c \<longleftrightarrow> 48 \<le> (of_char c :: nat) \<and> (of_char c :: nat) \<le> 57"

definition digit_val :: "byte \<Rightarrow> nat" where
  "digit_val c = of_char c - 48"

lemma of_char_digit [simp]: "d < 10 \<Longrightarrow> of_char (digit_char d) = (48 + d :: nat)"
  by (simp add: digit_char_def of_char_of)

lemma is_digit_digit_char [simp, digit_rules]: "d < 10 \<Longrightarrow> is_digit (digit_char d)"
  by (simp add: is_digit_def)

lemma digit_val_digit_char [simp]: "d < 10 \<Longrightarrow> digit_val (digit_char d) = d"
  by (simp add: digit_val_def)

lemma char_of_48 [simp]: "char_of (48 :: nat) = CHR ''0''"
  by (simp add: char_of_def bit_0)

lemma digit_char_eq_zero [simp]: "d < 10 \<Longrightarrow> digit_char d = CHR ''0'' \<longleftrightarrow> d = 0"
proof
  assume d: "d < 10" and eq: "digit_char d = CHR ''0''"
  from d have "48 + d = of_char (digit_char d)" by simp
  also have "\<dots> = (48 :: nat)" by (simp add: eq)
  finally show "d = 0" by simp
qed (simp add: digit_char_def)

lemma is_digit_imp_not_special:
  assumes "is_digit c"
  shows "c \<noteq> NUL" "c \<noteq> CHR ''-''" "c \<noteq> CHR ''+''" "c \<noteq> CHR '' ''" "c \<noteq> CHR 0x22"
    "c \<noteq> CHR 0x5C" "c \<noteq> CHR ''.''" "c \<noteq> CHR ''&''" "c \<noteq> CHR ''='' " "c \<noteq> CHR '','' "
  using assms by (auto simp: is_digit_def)

text \<open>The decimal digits of a number, most significant first, without leading zeros.\<close>

fun dec_nat :: "nat \<Rightarrow> string" where
  "dec_nat n = (if n < 10 then [digit_char n] else dec_nat (n div 10) @ [digit_char (n mod 10)])"

declare dec_nat.simps [simp del]

definition dec_int :: "int \<Rightarrow> string" where
  "dec_int i = (if i < 0 then CHR ''-'' # dec_nat (nat (- i)) else dec_nat (nat i))"

definition hex_digit :: "nat \<Rightarrow> byte" where
  "hex_digit d = (if d < 10 then char_of (48 + d) else char_of (87 + d))"

fun hex_nat :: "nat \<Rightarrow> string" where
  "hex_nat n = (if n < 16 then [hex_digit n] else hex_nat (n div 16) @ [hex_digit (n mod 16)])"

declare hex_nat.simps [simp del]

lemma dec_nat_nonempty [simp]: "dec_nat n \<noteq> []"
  by (subst dec_nat.simps) simp

lemma hex_nat_nonempty [simp]: "hex_nat n \<noteq> []"
  by (subst hex_nat.simps) simp

lemma dec_nat_digits [digit_rules]: "\<forall>c \<in> set (dec_nat n). is_digit c"
proof (induction n rule: dec_nat.induct)
  case (1 n)
  then show ?case by (subst dec_nat.simps) (auto simp: digit_rules)
qed

lemma dec_nat_0 [simp]: "dec_nat 0 = ''0''"
  by (subst dec_nat.simps) (simp add: digit_char_def)

lemma dec_nat_hd: "0 < n \<Longrightarrow> hd (dec_nat n) \<noteq> CHR ''0''"
proof (induction n rule: dec_nat.induct)
  case (1 n)
  then show ?case by (subst dec_nat.simps) (auto simp: hd_append)
qed

lemma length_dec_nat: "0 < k \<Longrightarrow> n < 10 ^ k \<Longrightarrow> length (dec_nat n) \<le> k"
proof (induction n arbitrary: k rule: dec_nat.induct)
  case (1 n)
  show ?case
  proof (cases "n < 10")
    case True
    with 1(2) show ?thesis by (subst dec_nat.simps) simp
  next
    case False
    from 1(2) obtain k' where k: "k = Suc k'" by (cases k) auto
    with False 1(3) have "0 < k'" by (cases k') auto
    moreover from k 1(3) have "n div 10 < 10 ^ k'" by (simp add: div_less_iff_less_mult mult.commute)
    ultimately have "length (dec_nat (n div 10)) \<le> k'" using 1(1) False by blast
    with False k show ?thesis by (subst dec_nat.simps) simp
  qed
qed

lemma length_dec_int:
  assumes "0 < k" "\<bar>i\<bar> < 10 ^ k"
  shows "length (dec_int i) \<le> Suc k"
proof -
  have "nat \<bar>i\<bar> < 10 ^ k"
    using assms(2) by (metis abs_ge_zero nat_less_iff of_nat_numeral of_nat_power)
  then have "length (dec_nat (nat \<bar>i\<bar>)) \<le> k"
    using length_dec_nat assms(1) by blast
  then show ?thesis
    using length_dec_nat[of k] by (auto simp: dec_int_def split: if_splits)
qed

lemma length_hex_nat: "0 < k \<Longrightarrow> n < 16 ^ k \<Longrightarrow> length (hex_nat n) \<le> k"
proof (induction n arbitrary: k rule: hex_nat.induct)
  case (1 n)
  show ?case
  proof (cases "n < 16")
    case True
    with 1(2) show ?thesis by (subst hex_nat.simps) simp
  next
    case False
    from 1(2) obtain k' where k: "k = Suc k'" by (cases k) auto
    with False 1(3) have "0 < k'" by (cases k') auto
    moreover from k 1(3) have "n div 16 < 16 ^ k'" by (simp add: div_less_iff_less_mult mult.commute)
    ultimately have "length (hex_nat (n div 16)) \<le> k'" using 1(1) False by blast
    with False k show ?thesis by (subst hex_nat.simps) simp
  qed
qed

text \<open>Reading digits back, most significant first, as \<open>atol\<close> does.\<close>

fun read_digits :: "nat \<Rightarrow> string \<Rightarrow> nat" where
  "read_digits acc [] = acc"
| "read_digits acc (c # cs) = (if is_digit c then read_digits (10 * acc + digit_val c) cs else acc)"

lemma read_digits_append:
  "\<forall>c \<in> set ds. is_digit c \<Longrightarrow> read_digits acc (ds @ r) = read_digits (read_digits acc ds) r"
  by (induction ds arbitrary: acc) auto

lemma read_dec_nat: "read_digits 0 (dec_nat n) = n"
proof (induction n rule: dec_nat.induct)
  case (1 n)
  show ?case
  proof (cases "n < 10")
    case True
    then show ?thesis by (subst dec_nat.simps) simp
  next
    case False
    have "read_digits 0 (dec_nat (n div 10) @ [digit_char (n mod 10)])
        = read_digits (n div 10) [digit_char (n mod 10)]"
      using 1 False by (simp add: read_digits_append digit_rules)
    with False show ?thesis by (subst dec_nat.simps) simp
  qed
qed

lemma read_dec_nat_stop:
  "r = [] \<or> \<not> is_digit (hd r) \<Longrightarrow> read_digits 0 (dec_nat n @ r) = n"
  by (cases r) (auto simp: read_digits_append read_dec_nat digit_rules)

end
