(* ===== verification/CString.thy ===== *)
theory CString
  imports Prelude
begin

text \<open>
  Byte arrays and the functions of \<open>string.h\<close> and \<open>stdlib.h\<close> that the code calls.

  A byte array whose bytes are all initialised is a \<open>bytes\<close> list, and a pointer into it is the
  rest of the list from there on. A local array without an initialiser, or memory from
  \<open>realloc\<close>, is a \<open>cbuf\<close>: \<open>None\<close> is a byte that has no value yet. Functions that walk a
  string stop at the first NUL and fault when the array ends before one is found.
\<close>

section \<open>Arrays with bytes that may be uninitialised\<close>

type_synonym cbuf = "byte option list"

definition uninit :: "nat \<Rightarrow> cbuf" where
  "uninit n = replicate n None"

definition zeroed :: "nat \<Rightarrow> cbuf" where
  "zeroed n = replicate n (Some NUL)"

definition buf_write :: "cbuf \<Rightarrow> nat \<Rightarrow> bytes \<Rightarrow> cbuf res" where
  "buf_write b off bs =
     (if off + length bs \<le> length b
      then Inr (take off b @ map Some bs @ drop (off + length bs) b)
      else Inl OutOfBounds)"

text \<open>\<open>memmove\<close> inside one array: it copies bytes as they are, initialised or not.\<close>

definition buf_move :: "cbuf \<Rightarrow> nat \<Rightarrow> nat \<Rightarrow> nat \<Rightarrow> cbuf res" where
  "buf_move b dst src n =
     (if dst + n \<le> length b \<and> src + n \<le> length b
      then Inr (take dst b @ take n (drop src b) @ drop (dst + n) b)
      else Inl OutOfBounds)"

lemma length_buf_write: "buf_write b off bs = Inr b' \<Longrightarrow> length b' = length b"
  by (auto simp: buf_write_def split: if_splits)

lemma buf_write_in [simp]:
  "off + length bs \<le> length b \<Longrightarrow>
     buf_write b off bs = Inr (take off b @ map Some bs @ drop (off + length bs) b)"
  by (simp add: buf_write_def)

section \<open>Strings in initialised memory\<close>

text \<open>The string that a pointer denotes: the bytes up to the first NUL.\<close>

definition cstr :: "bytes \<Rightarrow> string" where
  "cstr s = takeWhile (\<lambda>c. c \<noteq> NUL) s"

definition terminated :: "bytes \<Rightarrow> bool" where
  "terminated s \<longleftrightarrow> NUL \<in> set s"

fun c_strlen :: "bytes \<Rightarrow> nat res" where
  "c_strlen [] = Inl OutOfBounds"
| "c_strlen (c # cs) = (if c = NUL then Inr 0 else and_then (c_strlen cs) (\<lambda>n. Inr (Suc n)))"

fun c_strchr :: "bytes \<Rightarrow> byte \<Rightarrow> bytes option res" where
  "c_strchr [] x = Inl OutOfBounds"
| "c_strchr (c # cs) x =
     (if c = x then Inr (Some (c # cs)) else if c = NUL then Inr None else c_strchr cs x)"

text \<open>
  \<open>strstr\<close> with a non-empty needle, reading the haystack in order and no further than it has to.
\<close>

fun c_strstr :: "bytes \<Rightarrow> string \<Rightarrow> bytes option res" where
  "c_strstr [] needle = Inl OutOfBounds"
| "c_strstr (c # cs) needle =
     (if prefix needle (c # cs) then Inr (Some (c # cs))
      else if c = NUL then Inr None else c_strstr cs needle)"

text \<open>
  \<open>strcmp\<close> against a constant, as a test for equality, byte by byte up to the first difference
  or the end of the constant.
\<close>

fun c_streq :: "bytes \<Rightarrow> string \<Rightarrow> bool res" where
  "c_streq [] k = Inl OutOfBounds"
| "c_streq (c # cs) [] = Inr (c = NUL)"
| "c_streq (c # cs) (k # ks) = (if c = k then c_streq cs ks else Inr False)"

text \<open>
  \<open>atol\<close> is \<open>strtol\<close> in base 10: white space, an optional sign, digits, and the result clamped to
  the range of a 64-bit \<open>long\<close>. It stops at the first byte that does not fit, so at the latest
  at the NUL.
\<close>

definition is_space :: "byte \<Rightarrow> bool" where
  "is_space c \<longleftrightarrow> c = CHR '' '' \<or> (9 \<le> (of_char c :: nat) \<and> (of_char c :: nat) \<le> 13)"

definition clamp_long :: "int \<Rightarrow> int" where
  "clamp_long i = max (- (2 ^ 63)) (min (2 ^ 63 - 1) i)"

definition c_atol :: "bytes \<Rightarrow> int" where
  "c_atol s =
     (let s = dropWhile is_space s
      in case s of [] \<Rightarrow> 0
         | c # cs \<Rightarrow>
           if c = CHR ''-'' then clamp_long (- int (read_digits 0 cs))
           else if c = CHR ''+'' then clamp_long (int (read_digits 0 cs))
           else clamp_long (int (read_digits 0 s)))"

text \<open>\<open>atoi\<close> is the same number converted to a 32-bit \<open>int\<close>.\<close>

definition c_atoi :: "bytes \<Rightarrow> 32 word" where
  "c_atoi s = word_of_int (c_atol s)"

section \<open>Lemmas\<close>

lemma terminated_Cons [simp]: "terminated (c # cs) \<longleftrightarrow> c = NUL \<or> terminated cs"
  by (auto simp: terminated_def)

lemma terminated_Nil [simp]: "\<not> terminated []"
  by (simp add: terminated_def)

lemma terminated_append [simp]: "terminated (a @ b) \<longleftrightarrow> terminated a \<or> terminated b"
  by (auto simp: terminated_def)

lemma cstr_simps [simp]:
  "cstr [] = []"
  "cstr (c # cs) = (if c = NUL then [] else c # cstr cs)"
  by (simp_all add: cstr_def)

lemma cstr_no_NUL [simp]: "NUL \<notin> set (cstr s)"
  by (auto simp: cstr_def dest: set_takeWhileD)

lemma cstr_append_NUL [simp]: "NUL \<notin> set s \<Longrightarrow> cstr (s @ NUL # r) = s"
  by (simp add: cstr_def takeWhile_append)

lemma terminated_split: "terminated s \<Longrightarrow> \<exists>r. s = cstr s @ NUL # r"
  by (induction s) auto

lemma c_strlen_terminated [simp]: "terminated s \<Longrightarrow> c_strlen s = Inr (length (cstr s))"
  by (induction s) auto

lemma c_strlen_unterminated: "\<not> terminated s \<Longrightarrow> c_strlen s = Inl OutOfBounds"
  by (induction s) auto

lemma c_strchr_absent:
  "terminated s \<Longrightarrow> x \<notin> set (cstr s) \<Longrightarrow> x \<noteq> NUL \<Longrightarrow> c_strchr s x = Inr None"
  by (induction s) (auto split: if_splits)

lemma c_strchr_first:
  "x \<notin> set a \<Longrightarrow> NUL \<notin> set a \<Longrightarrow> c_strchr (a @ x # b) x = Inr (Some (x # b))"
  by (induction a) auto

lemma c_strstr_total: "terminated s \<Longrightarrow> NUL \<notin> set needle \<Longrightarrow> \<exists>r. c_strstr s needle = Inr r"
  by (induction s) auto

lemma c_strstr_Some:
  "c_strstr s needle = Inr (Some r) \<Longrightarrow> \<exists>a. s = a @ r \<and> prefix needle r \<and> NUL \<notin> set a"
proof (induction s)
  case (Cons c cs)
  show ?case
  proof (cases "prefix needle (c # cs)")
    case True
    with Cons.prems show ?thesis by auto
  next
    case False
    with Cons.prems have "c \<noteq> NUL" "c_strstr cs needle = Inr (Some r)" by (auto split: if_splits)
    with Cons.IH obtain a where "cs = a @ r \<and> prefix needle r \<and> NUL \<notin> set a" by blast
    with \<open>c \<noteq> NUL\<close> have "c # cs = (c # a) @ r \<and> prefix needle r \<and> NUL \<notin> set (c # a)" by simp
    then show ?thesis by blast
  qed
qed simp

lemma c_streq_terminated:
  "terminated s \<Longrightarrow> NUL \<notin> set k \<Longrightarrow> c_streq s k = Inr (cstr s = k)"
  by (induction s k rule: c_streq.induct) auto

lemma digit_not_space: "is_digit c \<Longrightarrow> \<not> is_space c"
  by (auto simp: is_digit_def is_space_def)

lemma dropWhile_space_dec_nat [simp]: "dropWhile is_space (dec_nat n @ r) = dec_nat n @ r"
  using dec_nat_digits[of n] digit_not_space
  by (cases "dec_nat n") auto

text \<open>\<open>atol\<close> reads back what \<open>%ld\<close> prints.\<close>

lemma c_atol_dec_int:
  assumes "- (2 ^ 63) \<le> i" "i < 2 ^ 63" "r = [] \<or> \<not> is_digit (hd r)"
  shows "c_atol (dec_int i @ r) = i"
proof (cases "i < 0")
  case True
  then show ?thesis using assms
    by (simp add: c_atol_def dec_int_def is_space_def read_dec_nat_stop clamp_long_def)
next
  case False
  obtain c cs where c: "dec_nat (nat i) = c # cs" using dec_nat_nonempty by (meson neq_Nil_conv)
  then have "is_digit c" using dec_nat_digits[of "nat i"] by simp
  then have "c \<noteq> CHR ''-''" "c \<noteq> CHR ''+''" by (simp_all add: is_digit_imp_not_special)
  moreover have "read_digits 0 (dec_nat (nat i) @ r) = nat i"
    using assms(3) by (rule read_dec_nat_stop)
  ultimately show ?thesis using assms False c dropWhile_space_dec_nat[of "nat i" r]
    by (simp add: c_atol_def dec_int_def clamp_long_def)
qed

end
