(* ===== verification/Output.thy ===== *)
theory Output
  imports CString
begin

text \<open>
  The output buffer of \<open>output.c\<close> and \<open>output.h\<close>: every part of an answer is appended to one
  global \<open>struct output\<close> (\<open>defop\<close> of \<open>httpd.c\<close>), which is sent and emptied at the end.

  The union of the C struct is a record with all its members. What goes to standard output or
  to a file descriptor is kept in two logs. \<open>calloc\<close> and \<open>realloc\<close> succeed; the code does not
  check them.

  The interface the printers of \<open>json.c\<close> use is the locale \<open>byte_sink\<close>: appending a chunk
  that is not larger than the initial allocation, within a total of 1 GiB, never faults and
  appends exactly the chunk.
\<close>

section \<open>Data\<close>

datatype output_type = OUTPUT_STDOUT | OUTPUT_FD | OUTPUT_BUF | OUTPUT_OTHER int

datatype content_encoding = Enc_none | Enc_deflate

record output_t =
  out_type :: output_type
  out_fd :: int
  ob_buf :: "cbuf option"
  ob_size :: int
  ob_offset :: int
  out_encoding :: content_encoding
  log_stdout :: bytes
  log_fd :: bytes

definition OUTBUF_DEF_SIZE :: nat where
  "OUTBUF_DEF_SIZE = 1024 * 1024"

definition EINVAL :: nat where
  "EINVAL = 22"

section \<open>Operations\<close>

text \<open>
  \<open>memcpy (dst + off, buf, sz)\<close>: the source is the readable bytes at \<open>buf\<close>.
\<close>

definition copy_in :: "cbuf \<Rightarrow> int \<Rightarrow> bytes \<Rightarrow> int \<Rightarrow> cbuf res" where
  "copy_in mem off buf sz =
     (if sz < 0 \<or> off < 0 \<or> nat sz > length buf then Inl OutOfBounds
      else buf_write mem (nat off) (take (nat sz) buf))"

text \<open>
  \<open>realloc\<close> to a larger sz keeps the bytes and adds bytes without a value; to a sz that is
  negative as an \<open>int\<close> the code never gets, because doubling 1 GiB overflows first.
\<close>

definition grow_to :: "cbuf \<Rightarrow> int \<Rightarrow> cbuf" where
  "grow_to mem n = take (nat n) mem @ uninit (nat n - length mem)"

definition output_buf :: "output_t \<Rightarrow> bytes \<Rightarrow> int \<Rightarrow> output_t res" where
  "output_buf op buf sz =
     (let op1 = (case ob_buf op of
                   None \<Rightarrow> op\<lparr>ob_size := int OUTBUF_DEF_SIZE, ob_buf := Some (zeroed OUTBUF_DEF_SIZE)\<rparr>
                 | Some _ \<Rightarrow> op)
      in and_then
           (if ob_size op1 - ob_offset op1 < sz
            then if ob_size op1 * 2 \<ge> 2 ^ 31 then Inl IntOverflow
                 else Inr (op1\<lparr>ob_size := ob_size op1 * 2,
                               ob_buf := map_option (\<lambda>m. grow_to m (ob_size op1 * 2)) (ob_buf op1)\<rparr>)
            else Inr op1)
           (\<lambda>op2. case ob_buf op2 of
              None \<Rightarrow> Inl NullDeref
            | Some mem \<Rightarrow> and_then (copy_in mem (ob_offset op2) buf sz) (\<lambda>mem'.
                Inr (op2\<lparr>ob_buf := Some mem', ob_offset := ob_offset op2 + sz\<rparr>))))"

definition output_samp :: "output_t \<Rightarrow> bytes \<Rightarrow> int \<Rightarrow> output_t res" where
  "output_samp op buf sz =
     (case out_type op of
        OUTPUT_STDOUT \<Rightarrow> Inr (op\<lparr>log_stdout := log_stdout op @ cstr buf\<rparr>)
      | OUTPUT_FD \<Rightarrow> (if sz < 0 \<or> nat sz > length buf then Inl OutOfBounds
                      else Inr (op\<lparr>log_fd := log_fd op @ take (nat sz) buf\<rparr>))
      | OUTPUT_BUF \<Rightarrow> output_buf op buf sz
      | OUTPUT_OTHER _ \<Rightarrow> Inl (Exit EINVAL))"

text \<open>
  \<open>output_samp_done\<close> calls the \<open>done\<close> hook on the connection and empties the buffer. The
  hook is an argument; the one that \<open>defop\<close> holds is \<open>http_show_samp_done\<close>.
\<close>

definition output_samp_done ::
    "(output_t \<Rightarrow> 'conn \<Rightarrow> 'conn res) option \<Rightarrow> output_t \<Rightarrow> 'conn \<Rightarrow> (output_t \<times> 'conn) res" where
  "output_samp_done hook op conn =
     and_then (case hook of None \<Rightarrow> Inr conn | Some f \<Rightarrow> f op conn) (\<lambda>conn'.
       if out_type op = OUTPUT_BUF then
         (case ob_buf op of
            None \<Rightarrow> if ob_offset op = 0 then Inr (op, conn') else Inl NullDeref
          | Some mem \<Rightarrow>
              if ob_offset op < 0 \<or> nat (ob_offset op) > length mem then Inl OutOfBounds
              else Inr (op\<lparr>ob_buf := Some (zeroed (nat (ob_offset op)) @ drop (nat (ob_offset op)) mem),
                          ob_offset := 0\<rparr>, conn'))
       else Inr (op, conn'))"

text \<open>What a reader of \<open>ob.offset\<close> bytes at \<open>ob.buf\<close> gets.\<close>

definition ob_data :: "output_t \<Rightarrow> bytes res" where
  "ob_data op =
     (case ob_buf op of
        None \<Rightarrow> if ob_offset op = 0 then Inr [] else Inl NullDeref
      | Some mem \<Rightarrow>
          if ob_offset op < 0 \<or> nat (ob_offset op) > length mem then Inl OutOfBounds
          else (case those (take (nat (ob_offset op)) mem) of
                  None \<Rightarrow> Inl Indeterminate
                | Some bs \<Rightarrow> Inr bs))"

section \<open>The buffer as an append-only sequence of bytes\<close>

text \<open>
  The abstraction: the bytes below the offset. The invariant: the allocation has \<open>size\<close> bytes, a
  power-of-two multiple of the initial size, and everything below the offset is initialised.
\<close>

definition out_content :: "output_t \<Rightarrow> bytes" where
  "out_content op = (case ob_buf op of None \<Rightarrow> [] | Some mem \<Rightarrow> map the (take (nat (ob_offset op)) mem))"

definition out_ok :: "output_t \<Rightarrow> bool" where
  "out_ok op \<longleftrightarrow> out_type op = OUTPUT_BUF \<and>
     (case ob_buf op of
        None \<Rightarrow> ob_offset op = 0
      | Some mem \<Rightarrow>
          (\<exists>k. ob_size op = int (OUTBUF_DEF_SIZE * 2 ^ k)) \<and> int (length mem) = ob_size op
          \<and> ob_size op \<le> 2 ^ 30
          \<and> 0 \<le> ob_offset op \<and> ob_offset op \<le> ob_size op
          \<and> None \<notin> set (take (nat (ob_offset op)) mem))"

lemma those_map_the: "None \<notin> set xs \<Longrightarrow> those xs = Some (map the xs)"
proof (induction xs)
  case (Cons x xs)
  then show ?case by (cases x) auto
qed simp

lemma ob_data_ok: "out_ok op \<Longrightarrow> ob_data op = Inr (out_content op)"
  by (auto simp: out_ok_def ob_data_def out_content_def those_map_the split: option.splits)

lemma length_out_content: "out_ok op \<Longrightarrow> int (length (out_content op)) = ob_offset op"
  by (auto simp: out_ok_def out_content_def split: option.splits)

text \<open>One append into an allocation that is large enough.\<close>

definition fits :: "output_t \<Rightarrow> cbuf \<Rightarrow> nat \<Rightarrow> bool" where
  "fits op mem n \<longleftrightarrow> ob_buf op = Some mem \<and> ob_offset op + int n \<le> int (length mem)"

lemma copy_in_ok:
  assumes "0 \<le> off" "off + int (length bs) \<le> int (length mem)"
  shows "copy_in mem off bs (int (length bs))
       = Inr (take (nat off) mem @ map Some bs @ drop (nat off + length bs) mem)"
proof -
  have "nat off + length bs \<le> length mem" using assms by linarith
  with assms show ?thesis by (simp add: copy_in_def)
qed

text \<open>
  Growing: with at least one initial size free after doubling, a chunk of at most the initial
  size fits.
\<close>

lemma output_buf_append:
  assumes ok: "out_ok op" and n: "length bs \<le> OUTBUF_DEF_SIZE"
    and total: "length (out_content op) + length bs \<le> 2 ^ 30"
  shows "\<exists>op'. output_buf op bs (int (length bs)) = Inr op' \<and> out_ok op'
           \<and> out_content op' = out_content op @ bs"
proof -
  define op1 where "op1 = (case ob_buf op of
      None \<Rightarrow> op\<lparr>ob_size := int OUTBUF_DEF_SIZE, ob_buf := Some (zeroed OUTBUF_DEF_SIZE)\<rparr> | Some _ \<Rightarrow> op)"
  obtain mem k where op1: "ob_buf op1 = Some mem" "ob_size op1 = int (OUTBUF_DEF_SIZE * 2 ^ k)"
      "int (length mem) = ob_size op1" "ob_size op1 \<le> 2 ^ 30"
      "0 \<le> ob_offset op1" "ob_offset op1 \<le> ob_size op1" "None \<notin> set (take (nat (ob_offset op1)) mem)"
      "out_type op1 = OUTPUT_BUF"
      "map the (take (nat (ob_offset op1)) mem) = out_content op" "ob_offset op1 = ob_offset op"
  proof (cases "ob_buf op")
    case None
    with ok have "out_type op = OUTPUT_BUF" "ob_offset op = 0" by (auto simp: out_ok_def)
    with None that[of "zeroed OUTBUF_DEF_SIZE" 0] show thesis
      by (simp add: op1_def zeroed_def OUTBUF_DEF_SIZE_def out_content_def)
  next
    case (Some mem)
    with ok obtain k where "ob_size op = int (OUTBUF_DEF_SIZE * 2 ^ k)" by (auto simp: out_ok_def)
    with ok Some that[of mem k] show thesis by (simp add: op1_def out_ok_def out_content_def)
  qed
  define op2 where "op2 = (if ob_size op1 - ob_offset op1 < int (length bs)
     then op1\<lparr>ob_size := ob_size op1 * 2, ob_buf := map_option (\<lambda>m. grow_to m (ob_size op1 * 2)) (ob_buf op1)\<rparr>
     else op1)"
  have off: "ob_offset op1 + int (length bs) \<le> 2 ^ 30"
    using total length_out_content[OF ok] op1(10) by simp
  have small: "ob_size op1 \<le> 2 ^ 29" if grow: "ob_size op1 - ob_offset op1 < int (length bs)"
  proof -
    have "int (OUTBUF_DEF_SIZE * 2 ^ k) < 2 ^ 30" using grow off op1(2) by simp
    then have "(2::int) ^ (20 + k) < 2 ^ 30" by (simp add: OUTBUF_DEF_SIZE_def power_add)
    then have "20 + k < 30" by (rule power_less_imp_less_exp[rotated]) simp
    then have "20 + k \<le> 29" by simp
    then have "(2::int) ^ (20 + k) \<le> 2 ^ 29" by (rule power_increasing) simp
    then show ?thesis using op1(2) by (simp add: OUTBUF_DEF_SIZE_def power_add)
  qed
  have op2: "\<exists>mem' k'. ob_buf op2 = Some mem' \<and> ob_size op2 = int (OUTBUF_DEF_SIZE * 2 ^ k')
      \<and> int (length mem') = ob_size op2 \<and> ob_size op2 \<le> 2 ^ 30
      \<and> take (nat (ob_offset op1)) mem' = take (nat (ob_offset op1)) mem
      \<and> ob_offset op1 + int (length bs) \<le> ob_size op2
      \<and> ob_offset op2 = ob_offset op1 \<and> out_type op2 = OUTPUT_BUF"
  proof (cases "ob_size op1 - ob_offset op1 < int (length bs)")
    case True
    define sz2 where "sz2 = ob_size op1 * 2"
    have "int OUTBUF_DEF_SIZE \<le> ob_size op1" using op1(2) by (simp add: OUTBUF_DEF_SIZE_def)
    then have 1: "ob_offset op1 + int (length bs) \<le> sz2" using op1(6) n by (simp add: sz2_def)
    have 2: "take (nat (ob_offset op1)) (grow_to mem sz2) = take (nat (ob_offset op1)) mem"
      using op1(3,5,6) by (simp add: grow_to_def sz2_def)
    have 3: "int (length (grow_to mem sz2)) = sz2"
      using op1(2,3) by (simp add: grow_to_def uninit_def sz2_def)
    have 4: "sz2 = int (OUTBUF_DEF_SIZE * 2 ^ Suc k)" using op1(2) by (simp add: sz2_def)
    have 5: "op2 = op1\<lparr>ob_size := sz2, ob_buf := Some (grow_to mem sz2)\<rparr>"
      using True op1(1) by (simp add: op2_def sz2_def)
    have 6: "sz2 \<le> 2 ^ 30" using small[OF True] by (simp add: sz2_def)
    show ?thesis
      by (rule exI[of _ "grow_to mem sz2"], rule exI[of _ "Suc k"]) (use 1 2 3 4 5 6 op1(8) in simp)
  next
    case False
    with op1 show ?thesis by (auto simp: op2_def)
  qed
  then obtain mem' k' where mem': "ob_buf op2 = Some mem'" "ob_size op2 = int (OUTBUF_DEF_SIZE * 2 ^ k')"
      "int (length mem') = ob_size op2" "ob_size op2 \<le> 2 ^ 30"
      "take (nat (ob_offset op1)) mem' = take (nat (ob_offset op1)) mem"
      "ob_offset op1 + int (length bs) \<le> ob_size op2" "ob_offset op2 = ob_offset op1"
      "out_type op2 = OUTPUT_BUF" by blast
  let ?o = "nat (ob_offset op1)"
  define mem'' where "mem'' = take ?o mem' @ map Some bs @ drop (?o + length bs) mem'"
  define op' where "op' = op2\<lparr>ob_buf := Some mem'', ob_offset := ob_offset op1 + int (length bs)\<rparr>"
  have le: "?o + length bs \<le> length mem'" using mem'(3,6) op1(5) by linarith
  have copy: "copy_in mem' (ob_offset op1) bs (int (length bs)) = Inr mem''"
    unfolding mem''_def using copy_in_ok[of "ob_offset op1" bs mem'] op1(5) mem'(3,6) by simp
  have run: "output_buf op bs (int (length bs)) = Inr op'"
    using mem'(1,7) copy small
    unfolding output_buf_def Let_def op1_def[symmetric] by (fastforce simp: op2_def op'_def)
  have len: "nat (ob_offset op1 + int (length bs)) = ?o + length bs" using op1(5) by linarith
  have pre: "take (?o + length bs) mem'' = take ?o mem @ map Some bs"
    using le mem'(5) op1(3,5,6) by (simp add: mem''_def)
  have "out_content op' = out_content op @ bs"
    using op1(9) by (simp add: op'_def out_content_def len pre comp_def)
  moreover have "length mem'' = length mem'" using le by (simp add: mem''_def)
  then have "out_ok op'"
    using mem' op1(5,7) unfolding out_ok_def op'_def by (auto simp: len pre)
  ultimately show ?thesis using run by blast
qed

lemma output_samp_append:
  assumes "out_ok op" "length bs \<le> OUTBUF_DEF_SIZE" "length (out_content op) + length bs \<le> 2 ^ 30"
  shows "\<exists>op'. output_samp op bs (int (length bs)) = Inr op' \<and> out_ok op'
           \<and> out_content op' = out_content op @ bs"
  using output_buf_append[OF assms] assms(1) by (simp add: output_samp_def out_ok_def)

lemma output_buf_frame:
  "output_buf op bs n = Inr op' \<Longrightarrow> out_encoding op' = out_encoding op \<and> out_type op' = out_type op"
  by (auto simp: output_buf_def Let_def and_then_Inr_iff split: option.splits if_splits)

lemma output_samp_frame:
  "output_samp op bs n = Inr op' \<Longrightarrow> out_encoding op' = out_encoding op \<and> out_type op' = out_type op"
  using output_buf_frame by (auto simp: output_samp_def split: output_type.splits if_splits)

section \<open>The interface of a sink of bytes\<close>

text \<open>
  What the printers rely on. \<open>emit\<close> appends a chunk; \<open>chunk\<close> bounds what one call may append
  and \<open>room\<close> bounds the whole. The derived lemma says that a sequence of chunks is written as
  their concatenation.
\<close>

locale byte_sink =
  fixes emit :: "'s \<Rightarrow> bytes \<Rightarrow> 's res"
    and content :: "'s \<Rightarrow> bytes"
    and ok :: "'s \<Rightarrow> bool"
    and chunk :: nat
    and room :: nat
  assumes emit_append:
    "ok s \<Longrightarrow> length bs \<le> chunk \<Longrightarrow> length (content s) + length bs \<le> room \<Longrightarrow>
       \<exists>s'. emit s bs = Inr s' \<and> ok s' \<and> content s' = content s @ bs"
begin

fun emit_all :: "'s \<Rightarrow> bytes list \<Rightarrow> 's res" where
  "emit_all s [] = Inr s"
| "emit_all s (b # bs) = and_then (emit s b) (\<lambda>s'. emit_all s' bs)"

lemma emit_all_concat:
  assumes "ok s" "\<forall>b \<in> set bs. length b \<le> chunk" "length (content s) + length (concat bs) \<le> room"
  shows "\<exists>s'. emit_all s bs = Inr s' \<and> ok s' \<and> content s' = content s @ concat bs"
  using assms
proof (induction bs arbitrary: s)
  case (Cons b bs)
  then obtain s' where s': "emit s b = Inr s'" "ok s'" "content s' = content s @ b"
    using emit_append[of s b] by auto
  with Cons.IH[of s'] Cons.prems show ?case by auto
qed simp

text \<open>
  A program fragment \<open>f\<close> emits a text with property \<open>P\<close> and at most \<open>n\<close> bytes, from every
  state with that much room. This is the judgement in which the printers are verified.
\<close>

definition emits :: "('s \<Rightarrow> 's res) \<Rightarrow> (bytes \<Rightarrow> bool) \<Rightarrow> nat \<Rightarrow> bool" where
  "emits f P n \<longleftrightarrow> (\<forall>s. ok s \<and> length (content s) + n \<le> room \<longrightarrow>
     (\<exists>s' t. f s = Inr s' \<and> ok s' \<and> content s' = content s @ t \<and> length t \<le> n \<and> P t))"

lemma emits_chunk: "length bs \<le> chunk \<Longrightarrow> length bs \<le> n \<Longrightarrow> P bs \<Longrightarrow> emits (\<lambda>s. emit s bs) P n"
  unfolding emits_def using emit_append by fastforce

lemma emits_skip: "P [] \<Longrightarrow> emits Inr P n"
  by (auto simp: emits_def)

lemma emits_seq:
  assumes f: "emits f P m" and g: "\<And>t. P t \<Longrightarrow> emits g (\<lambda>u. Q (t @ u)) n"
  shows "emits (\<lambda>s. and_then (f s) g) Q (m + n)"
  unfolding emits_def
proof (intro allI impI)
  fix s assume s: "ok s \<and> length (content s) + (m + n) \<le> room"
  then have "ok s \<and> length (content s) + m \<le> room" by simp
  with f obtain s' t where t: "f s = Inr s'" "ok s'" "content s' = content s @ t" "length t \<le> m" "P t"
    unfolding emits_def by blast
  with s have "ok s' \<and> length (content s') + n \<le> room" by simp
  with g[OF t(5)] obtain s'' u where
    "g s' = Inr s''" "ok s''" "content s'' = content s' @ u" "length u \<le> n" "Q (t @ u)"
    unfolding emits_def by blast
  with t show "\<exists>s' ta. and_then (f s) g = Inr s' \<and> ok s' \<and> content s' = content s @ ta
      \<and> length ta \<le> m + n \<and> Q ta"
    by (intro exI[of _ s''] exI[of _ "t @ u"]) simp
qed

lemma emits_mono: "emits f P m \<Longrightarrow> m \<le> n \<Longrightarrow> (\<And>t. P t \<Longrightarrow> Q t) \<Longrightarrow> emits f Q n"
  unfolding emits_def by (meson add_left_mono le_trans order_trans)

end

interpretation ob: byte_sink "\<lambda>op bs. output_samp op bs (int (length bs))" out_content out_ok
    OUTBUF_DEF_SIZE "2 ^ 30"
  by unfold_locales (rule output_samp_append)

lemma samp_done_resets:
  assumes "out_ok op" "hook op conn = Inr conn'"
  shows "\<exists>op'. output_samp_done (Some hook) op conn = Inr (op', conn')
           \<and> ob_data op = Inr (out_content op) \<and> out_ok op' \<and> out_content op' = []"
proof (cases "ob_buf op")
  case None
  with assms ob_data_ok[OF assms(1)] show ?thesis
    by (simp add: output_samp_done_def out_ok_def out_content_def)
next
  case (Some mem)
  let ?o = "nat (ob_offset op)"
  have o: "?o \<le> length mem" "0 \<le> ob_offset op" using assms(1) Some by (auto simp: out_ok_def)
  let ?op = "op\<lparr>ob_buf := Some (zeroed ?o @ drop ?o mem), ob_offset := 0\<rparr>"
  have "output_samp_done (Some hook) op conn = Inr (?op, conn')"
    using assms Some o by (simp add: output_samp_done_def out_ok_def)
  moreover have "out_ok ?op" using assms(1) Some o by (auto simp: out_ok_def zeroed_def)
  moreover have "out_content ?op = []" by (simp add: out_content_def)
  ultimately show ?thesis using ob_data_ok[OF assms(1)] by blast
qed

section \<open>Properties\<close>

text \<open>
  C13. While the total stays within 1 GiB and a chunk is not larger than the initial megabyte,
  \<open>output_samp\<close> is an append to a sequence of bytes: it never writes outside the allocation
  (one doubling is enough), never overflows the size, and keeps the buffer invariant.
\<close>

theorem output_samp_refines_append:
  assumes "out_ok op" "length bs \<le> OUTBUF_DEF_SIZE" "length (out_content op) + length bs \<le> 2 ^ 30"
  shows "\<exists>op'. output_samp op bs (int (length bs)) = Inr op' \<and> out_ok op'
           \<and> ob_data op' = Inr (out_content op @ bs)"
  using output_samp_append[OF assms] ob_data_ok by metis

definition empty_output :: output_t where
  "empty_output = \<lparr>out_type = OUTPUT_BUF, out_fd = 0, ob_buf = None, ob_size = 0, ob_offset = 0,
     out_encoding = Enc_none, log_stdout = [], log_fd = []\<rparr>"

lemma empty_output_ok [simp]: "out_ok empty_output" "out_content empty_output = []"
  by (simp_all add: empty_output_def out_ok_def out_content_def)

theorem output_samp_refines_append_witness:
  "\<exists>op'. output_samp empty_output ''pong'' 4 = Inr op' \<and> out_ok op' \<and> ob_data op' = Inr ''pong''"
  using output_samp_refines_append[of empty_output "''pong''"] by (simp add: OUTBUF_DEF_SIZE_def)

text \<open>
  C33. The buffer is doubled once and not until the chunk fits: a chunk that is larger than the
  free space after one doubling is copied past the end of the allocation.
\<close>

theorem output_buf_overrun:
  assumes "out_ok op" "ob_buf op = Some mem" "ob_size op < 2 ^ 30"
    and "2 * ob_size op - ob_offset op < int (length bs)"
  shows "output_buf op bs (int (length bs)) = Inl OutOfBounds"
proof -
  from assms(1,2) have m: "int (length mem) = ob_size op" "0 \<le> ob_offset op" "ob_offset op \<le> ob_size op"
    by (auto simp: out_ok_def)
  have "length (grow_to mem (ob_size op * 2)) = nat (ob_size op * 2)"
    using m by (simp add: grow_to_def uninit_def)
  then have "copy_in (grow_to mem (ob_size op * 2)) (ob_offset op) bs (int (length bs)) = Inl OutOfBounds"
    using assms(4) m by (simp add: copy_in_def buf_write_def)
  then show ?thesis using assms m by (simp add: output_buf_def)
qed

theorem output_buf_overrun_witness:
  "output_buf (empty_output\<lparr>ob_buf := Some (zeroed OUTBUF_DEF_SIZE), ob_size := int OUTBUF_DEF_SIZE\<rparr>)
     (replicate (3 * OUTBUF_DEF_SIZE) (CHR ''x'')) (int (3 * OUTBUF_DEF_SIZE)) = Inl OutOfBounds"
proof -
  let ?op = "empty_output\<lparr>ob_buf := Some (zeroed OUTBUF_DEF_SIZE), ob_size := int OUTBUF_DEF_SIZE\<rparr>"
  have "out_ok ?op"
    by (auto simp: out_ok_def empty_output_def zeroed_def OUTBUF_DEF_SIZE_def intro: exI[of _ 0])
  from output_buf_overrun[OF this, of "zeroed OUTBUF_DEF_SIZE" "replicate (3 * OUTBUF_DEF_SIZE) (CHR ''x'')"]
  show ?thesis by (simp add: empty_output_def OUTBUF_DEF_SIZE_def)
qed

text \<open>
  Finishing a record: the hook sees exactly the bytes that were appended since the last
  one, and afterwards the buffer is empty and ready for the next record.
\<close>

theorem output_samp_done_resets:
  assumes "out_ok op" "hook op conn = Inr conn'"
  shows "\<exists>op'. output_samp_done (Some hook) op conn = Inr (op', conn')
           \<and> ob_data op = Inr (out_content op) \<and> out_ok op' \<and> out_content op' = []"
  by (rule samp_done_resets) (fact assms)+

theorem output_samp_done_resets_witness:
  "\<exists>op'. output_samp_done (Some (\<lambda>op c. Inr (Suc c))) empty_output 0 = Inr (op', 1) \<and> out_content op' = []"
  using output_samp_done_resets[of empty_output "\<lambda>op c. Inr (Suc c)" 0 1] by auto

end
