(* ===== verification/HttpArgs.thy ===== *)
theory HttpArgs
  imports Output
begin

text \<open>
  The arguments of a request: \<open>http_arg_long\<close> and \<open>http_arg_str\<close> of \<open>httpd.c\<close>.

  The request is a terminated string in initialised memory. The destination of \<open>http_arg_str\<close> is a local
  array without an initialiser, so its bytes may have no value; the decoding of \<open>%2C\<close> works in place on it,
  and the model moves the same bytes that \<open>memmove\<close> moves.
\<close>

section \<open>Operations\<close>

definition http_arg_long :: "bytes \<Rightarrow> string \<Rightarrow> (int \<times> int option) res" where
  "http_arg_long req needle =
     and_then (c_strstr req needle) (\<lambda>r. case r of
        None \<Rightarrow> Inr (- 1, None)
      | Some s \<Rightarrow>
          and_then (at s (length needle)) (\<lambda>c.
            if c \<noteq> CHR ''='' then Inr (- 1, None)
            else Inr (0, Some (c_atol (drop (Suc (length needle)) s)))))"

text \<open>The string at a place of an array that may have bytes without a value.\<close>

fun cbuf_str :: "cbuf \<Rightarrow> string res" where
  "cbuf_str [] = Inl OutOfBounds"
| "cbuf_str (None # cs) = Inl Indeterminate"
| "cbuf_str (Some c # cs) = (if c = NUL then Inr [] else and_then (cbuf_str cs) (\<lambda>s. Inr (c # s)))"

lemma length_buf_move: "buf_move b d s n = Inr b' \<Longrightarrow> length b' = length b"
  by (auto simp: buf_move_def split: if_splits)

text \<open>
  \<open>while ((p = strstr (p, "%2C")) != NULL) { *(p++) = ','; memmove (p, p + 2, strlen (p)); }\<close>
\<close>

function decode_commas :: "cbuf \<Rightarrow> nat \<Rightarrow> cbuf res" where
  "decode_commas b p =
     and_then (cbuf_str (drop p b)) (\<lambda>s.
     and_then (c_strstr (s @ [NUL]) ''%2C'') (\<lambda>r. case r of
        None \<Rightarrow> Inr b
      | Some suf \<Rightarrow>
          let q = p + (length s + 1 - length suf)
          in and_then (buf_write b q '','') (\<lambda>b'.
             and_then (cbuf_str (drop (Suc q) b')) (\<lambda>t.
             and_then (buf_move b' (Suc q) (q + 3) (length t)) (\<lambda>b''.
               decode_commas b'' (Suc q))))))"
  by pat_completeness auto

termination
proof (relation "measure (\<lambda>(b, p). length b - p)")
  fix b :: cbuf and p s r suf q b' t b''
  assume "q = p + (length s + 1 - length suf)" "buf_write b q '','' = Inr b'"
    "buf_move b' (Suc q) (q + 3) (length t) = Inr b''"
  then have "p \<le> q" "q < length b" "length b'' = length b"
    by (auto simp: buf_write_def dest: length_buf_move length_buf_write split: if_splits)
  then show "((b'', Suc q), (b, p)) \<in> measure (\<lambda>(b, p). length b - p)" by simp
qed simp

declare decode_commas.simps [simp del]

text \<open>
  \<open>memcpy (p, s, e - s); p[e - s] = 0;\<close> then the decoding. The bound is \<open>e - s > len\<close>, so a value
  of exactly \<open>len\<close> bytes is copied.
\<close>

definition http_arg_str :: "bytes \<Rightarrow> string \<Rightarrow> cbuf \<Rightarrow> nat \<Rightarrow> (int \<times> cbuf) res" where
  "http_arg_str req needle p len =
     and_then (c_strstr req needle) (\<lambda>r. case r of
        None \<Rightarrow> Inr (- 1, p)
      | Some s \<Rightarrow>
          and_then (at s (length needle)) (\<lambda>c.
            if c \<noteq> CHR ''='' then Inr (- 1, p)
            else let s = drop (Suc (length needle)) s
                 in and_then (c_strchr s (CHR ''&'')) (\<lambda>e.
                    and_then (case e of Some e \<Rightarrow> Inr (length s - length e) | None \<Rightarrow> c_strlen s) (\<lambda>n.
                      if n > len then Inr (- 1, p)
                      else and_then (buf_write p 0 (take n s)) (\<lambda>p.
                           and_then (buf_write p n [NUL]) (\<lambda>p.
                           and_then (decode_commas p 0) (\<lambda>p. Inr (0, p))))))))"

section \<open>What the decoding means\<close>

fun percent_decode :: "string \<Rightarrow> string" where
  "percent_decode (a # b # c # s) =
     (if a = CHR ''%'' \<and> b = CHR ''2'' \<and> c = CHR ''C'' then CHR '','' # percent_decode s
      else a # percent_decode (b # c # s))"
| "percent_decode s = s"

fun percent_encode :: "string \<Rightarrow> string" where
  "percent_encode [] = []"
| "percent_encode (c # s) = (if c = CHR '','' then ''%2C'' @ percent_encode s else c # percent_encode s)"

lemma percent_decode_skip: "c \<noteq> CHR ''%'' \<Longrightarrow> percent_decode (c # s) = c # percent_decode s"
  by (cases s; cases "tl s") auto

lemma decode_encode: "CHR ''%'' \<notin> set s \<Longrightarrow> percent_decode (percent_encode s @ t) = s @ percent_decode t"
  by (induction s) (auto simp: percent_decode_skip)

section \<open>The decoding of an array\<close>

lemma cbuf_str_holds: "NUL \<notin> set s \<Longrightarrow> cbuf_str (map Some s @ Some NUL # rest) = Inr s"
  by (induction s) auto

lemma no_match_decodes: "c_strstr (s @ [NUL]) ''%2C'' = Inr None \<Longrightarrow> NUL \<notin> set s \<Longrightarrow> percent_decode s = s"
proof (induction s rule: percent_decode.induct)
  case (1 a b c s)
  have "c_strstr ((b # c # s) @ [NUL]) ''%2C'' = Inr None" using 1(3,4) by (auto split: if_splits)
  moreover have "\<not> (a = CHR ''%'' \<and> b = CHR ''2'' \<and> c = CHR ''C'')" using 1(3) by auto
  ultimately show ?case using 1(2,4) by auto
qed simp_all

lemma match_decodes:
  "c_strstr (s @ [NUL]) ''%2C'' = Inr (Some suf) \<Longrightarrow> NUL \<notin> set s \<Longrightarrow>
     \<exists>a u. s = a @ ''%2C'' @ u \<and> suf = ''%2C'' @ u @ [NUL] \<and> percent_decode s = a @ '','' @ percent_decode u"
proof (induction s rule: percent_decode.induct)
  case (1 a b c s)
  show ?case
  proof (cases "a = CHR ''%'' \<and> b = CHR ''2'' \<and> c = CHR ''C''")
    case True
    with 1(3) have "suf = ''%2C'' @ s @ [NUL]" by simp
    with True show ?thesis by (intro exI[of _ "[]"] exI[of _ s]) simp
  next
    case False
    then have np: "\<not> prefix ''%2C'' (a # (b # c # s) @ [NUL])" by auto
    have "c_strstr (a # (b # c # s) @ [NUL]) ''%2C'' = Inr (Some suf)" using 1(3) by simp
    moreover have "a \<noteq> NUL" using 1(4) by auto
    ultimately have "c_strstr ((b # c # s) @ [NUL]) ''%2C'' = Inr (Some suf)"
      by (simp only: c_strstr.simps(2)[of a] np if_False)
    from 1(2)[OF False this] 1(4) obtain x u where
      "b # c # s = x @ ''%2C'' @ u" "suf = ''%2C'' @ u @ [NUL]" "percent_decode (b # c # s) = x @ '','' @ percent_decode u"
      by auto
    note xu = this
    have "percent_decode (a # b # c # s) = a # percent_decode (b # c # s)"
      by (simp only: percent_decode.simps(1) False if_False)
    then show ?thesis unfolding xu
      by (rule_tac exI[of _ "a # x"], rule_tac exI[of _ u]) (use xu in simp)
  qed
qed (auto split: if_splits)

text \<open>
  One round: the comma is written over the percent sign, and the tail moves down by two. \<open>memmove\<close> also
  moves the byte behind the terminator, which therefore has to exist.
\<close>

lemma decode_commas_round:
  assumes "b = map Some (pre @ a @ ''%2C'' @ u) @ Some NUL # x # rest" "NUL \<notin> set u" "q = length pre + length a"
  shows "and_then (buf_write b q '','') (\<lambda>b'. and_then (cbuf_str (drop (Suc q) b')) (\<lambda>t.
           buf_move b' (Suc q) (q + 3) (length t)))
    = Inr (map Some (pre @ a @ '','' @ u) @ Some NUL # x # Some NUL # x # rest)"
proof -
  let ?b' = "map Some (pre @ a @ '',2C'' @ u) @ Some NUL # x # rest"
  have 1: "buf_write b q '','' = Inr ?b'" by (simp add: assms(1,3))
  have "drop (Suc q) ?b' = map Some (''2C'' @ u) @ Some NUL # x # rest" by (simp add: assms(3))
  then have 2: "cbuf_str (drop (Suc q) ?b') = Inr (''2C'' @ u)"
    using cbuf_str_holds[of "''2C'' @ u" "x # rest"] assms(2) by simp
  have 3: "buf_move ?b' (Suc q) (q + 3) (length (''2C'' @ u))
      = Inr (map Some (pre @ a @ '','' @ u) @ Some NUL # x # Some NUL # x # rest)"
    by (simp add: buf_move_def assms(3) eval_nat_numeral)
  show ?thesis by (simp only: 1 2 3 and_then_simps)
qed

lemma decode_commas_spec:
  assumes "NUL \<notin> set s" "rest \<noteq> []"
  shows "\<exists>rest'. decode_commas (map Some (pre @ s) @ Some NUL # rest) (length pre)
    = Inr (map Some (pre @ percent_decode s) @ Some NUL # rest')
      \<and> length rest' + length (percent_decode s) = length rest + length s"
  using assms
proof (induction "length s" arbitrary: s pre rest rule: less_induct)
  case less
  let ?b = "map Some (pre @ s) @ Some NUL # rest"
  have str: "cbuf_str (drop (length pre) ?b) = Inr s" using cbuf_str_holds[OF less.prems(1)] by simp
  obtain r where r: "c_strstr (s @ [NUL]) ''%2C'' = Inr r" using c_strstr_total[of "s @ [NUL]" "''%2C''"] by auto
  show ?case
  proof (cases r)
    case None
    then have "percent_decode s = s" using no_match_decodes r less.prems(1) by simp
    then show ?thesis using str r None by (subst decode_commas.simps) simp
  next
    case (Some suf)
    with match_decodes r less.prems(1) obtain a u where
      u: "s = a @ ''%2C'' @ u" "suf = ''%2C'' @ u @ [NUL]" "percent_decode s = a @ '','' @ percent_decode u" by blast
    obtain x rest0 where x: "rest = x # rest0" using less.prems(2) by (cases rest) auto
    let ?q = "length pre + length a"
    have q: "length pre + (length s + 1 - length suf) = ?q" by (simp add: u)
    have "NUL \<notin> set u" using less.prems(1) u(1) by simp
    from decode_commas_round[OF _ this, of ?b pre a x rest0 ?q] u(1) x
    have round: "and_then (buf_write ?b ?q '','') (\<lambda>b'. and_then (cbuf_str (drop (Suc ?q) b')) (\<lambda>t.
           buf_move b' (Suc ?q) (?q + 3) (length t)))
      = Inr (map Some ((pre @ a @ '','') @ u) @ Some NUL # x # Some NUL # rest)" by simp
    have step: "decode_commas ?b (length pre)
      = decode_commas (map Some ((pre @ a @ '','') @ u) @ Some NUL # x # Some NUL # rest) (Suc ?q)"
      using round str r Some q
      by (subst decode_commas.simps) (auto simp: and_then_Inr_iff Let_def)
    have "length u < length s" by (simp add: u(1))
    from less.hyps[OF this \<open>NUL \<notin> set u\<close>, of "x # Some NUL # rest" "pre @ a @ '',''"] obtain rest' where
      "decode_commas (map Some ((pre @ a @ '','') @ u) @ Some NUL # x # Some NUL # rest) (Suc ?q)
        = Inr (map Some ((pre @ a @ '','') @ percent_decode u) @ Some NUL # rest')"
      "length rest' + length (percent_decode u) = Suc (Suc (length rest)) + length u" by auto
    moreover have "length s = length a + 3 + length u" by (simp add: u(1))
    ultimately show ?thesis unfolding step by (intro exI[of _ rest']) (simp add: u(3))
  qed
qed

section \<open>The arguments of a query\<close>

text \<open>
  The request has the argument when \<open>name=\<close> is where \<open>strstr\<close> first finds \<open>name\<close>; the value
  reaches to the next \<open>&\<close> or to the end.
\<close>

definition query_has :: "string \<Rightarrow> string \<Rightarrow> string \<Rightarrow> bool" where
  "query_has req name val \<longleftrightarrow> (\<exists>a b. req = a @ name @ ''='' @ val @ b
     \<and> (\<forall>i < length a. \<not> prefix name (drop i req)) \<and> (b = [] \<or> hd b = CHR ''&'') \<and> CHR ''&'' \<notin> set val)"

lemma c_strstr_at:
  "(\<And>i. i < length a \<Longrightarrow> \<not> prefix n (drop i (a @ r))) \<Longrightarrow> prefix n r \<Longrightarrow> NUL \<notin> set a \<Longrightarrow> r \<noteq> [] \<Longrightarrow>
     c_strstr (a @ r) n = Inr (Some r)"
proof (induction a)
  case Nil
  then show ?case by (cases r) auto
next
  case (Cons c a)
  have "\<not> prefix n (c # a @ r)" using Cons.prems(1)[of 0] by simp
  moreover have "c_strstr (a @ r) n = Inr (Some r)"
  proof (rule Cons.IH)
    fix i assume "i < length a"
    then show "\<not> prefix n (drop i (a @ r))" using Cons.prems(1)[of "Suc i"] by simp
  qed (use Cons.prems in auto)
  ultimately show ?case using Cons.prems(3) by auto
qed

lemma query_strstr:
  assumes "query_has req name val" "NUL \<notin> set req" "name \<noteq> []"
  shows "\<exists>b. c_strstr (req @ NUL # zs) name = Inr (Some (name @ ''='' @ val @ b @ NUL # zs))
     \<and> (b = [] \<or> hd b = CHR ''&'') \<and> NUL \<notin> set val \<and> NUL \<notin> set b \<and> CHR ''&'' \<notin> set val"
proof -
  from assms(1) obtain a b where ab: "req = a @ name @ ''='' @ val @ b"
    "\<forall>i < length a. \<not> prefix name (drop i req)" "b = [] \<or> hd b = CHR ''&''" "CHR ''&'' \<notin> set val"
    unfolding query_has_def by blast
  have "c_strstr (a @ (name @ ''='' @ val @ b @ NUL # zs)) name = Inr (Some (name @ ''='' @ val @ b @ NUL # zs))"
  proof (rule c_strstr_at)
    fix i assume i: "i < length a"
    show "\<not> prefix name (drop i (a @ name @ ''='' @ val @ b @ NUL # zs))"
    proof
      assume p: "prefix name (drop i (a @ name @ ''='' @ val @ b @ NUL # zs))"
      have "drop i (a @ name @ ''='' @ val @ b @ NUL # zs) = drop i req @ NUL # zs" using i by (simp add: ab(1))
      with p have "prefix name (drop i req @ NUL # zs)" by simp
      moreover have "length name \<le> length (drop i req)" using i by (simp add: ab(1))
      ultimately have "prefix name (drop i req)" by (auto simp: prefix_append dest: prefix_length_le)
      with ab(2) i show False by blast
    qed
  qed (use assms(2,3) ab(1) in auto)
  then show ?thesis using ab assms(2) by (intro exI[of _ b]) auto
qed

lemma value_length:
  assumes "b = [] \<or> hd b = CHR ''&''" "NUL \<notin> set val" "NUL \<notin> set b" "CHR ''&'' \<notin> set val"
  shows "and_then (c_strchr (val @ b @ NUL # zs) (CHR ''&'')) (\<lambda>e.
      case e of Some e \<Rightarrow> Inr (length (val @ b @ NUL # zs) - length e) | None \<Rightarrow> c_strlen (val @ b @ NUL # zs))
    = Inr (length val)"
proof (cases b)
  case Nil
  then show ?thesis using assms(2,4) by (simp add: c_strchr_absent)
next
  case (Cons c b')
  then have "c_strchr (val @ b @ NUL # zs) (CHR ''&'') = Inr (Some (b @ NUL # zs))"
    using assms c_strchr_first[of "CHR ''&''" val "b' @ NUL # zs"] by simp
  then show ?thesis by simp
qed

lemma http_arg_str_stores:
  assumes "query_has req name val" "NUL \<notin> set req" "name \<noteq> []" "length p = len" "length val + 2 \<le> len"
  shows "\<exists>p'. http_arg_str (req @ NUL # zs) name p len = Inr (0, p') \<and> length p' = len
     \<and> cbuf_str p' = Inr (percent_decode val)"
proof -
  from query_strstr[OF assms(1-3), of zs] obtain b where
    b: "c_strstr (req @ NUL # zs) name = Inr (Some (name @ ''='' @ val @ b @ NUL # zs))"
      "b = [] \<or> hd b = CHR ''&''" "NUL \<notin> set val" "NUL \<notin> set b" "CHR ''&'' \<notin> set val" by blast
  let ?s = "val @ b @ NUL # zs"
  have w1: "buf_write p 0 (take (length val) ?s) = Inr (map Some val @ drop (length val) p)"
    using assms(4,5) by simp
  have w2: "buf_write (map Some val @ drop (length val) p) (length val) [NUL]
      = Inr (map Some val @ Some NUL # drop (Suc (length val)) p)"
    using assms(4,5) by simp
  have "drop (Suc (length val)) p \<noteq> []" using assms(4,5) by simp
  from decode_commas_spec[OF b(3) this, of "[]"] obtain rest' where
    r: "decode_commas (map Some val @ Some NUL # drop (Suc (length val)) p) 0
        = Inr (map Some (percent_decode val) @ Some NUL # rest')"
      "length rest' + length (percent_decode val) = length (drop (Suc (length val)) p) + length val" by auto
  have nn: "NUL \<notin> set (percent_decode val)"
    using b(3) by (induction val rule: percent_decode.induct) auto
  obtain e where e: "c_strchr ?s (CHR ''&'') = Inr e"
    "(case e of Some e \<Rightarrow> Inr (length ?s - length e) | None \<Rightarrow> c_strlen ?s) = Inr (length val)"
    using value_length[OF b(2-5), of zs] by (auto simp: and_then_Inr_iff)
  have at: "at (name @ ''='' @ ?s) (length name) = Inr (CHR ''='')" by (simp add: at_def)
  have "http_arg_str (req @ NUL # zs) name p len = Inr (0, map Some (percent_decode val) @ Some NUL # rest')"
    using b(1) at e assms(5) w1 w2 r(1) by (simp add: http_arg_str_def Let_def)
  moreover have "cbuf_str (map Some (percent_decode val) @ Some NUL # rest') = Inr (percent_decode val)"
    by (rule cbuf_str_holds[OF nn])
  moreover have "length (map Some (percent_decode val) @ Some NUL # rest') = len"
    using r(2) assms(4,5) by simp
  ultimately show ?thesis by blast
qed

lemma arg_long_reads:
  assumes "query_has req name (dec_int i)" "NUL \<notin> set req" "name \<noteq> []" "- (2 ^ 63) \<le> i" "i < 2 ^ 63"
  shows "http_arg_long (req @ NUL # zs) name = Inr (0, Some i)"
proof -
  from query_strstr[OF assms(1-3), of zs] obtain b where
    b: "c_strstr (req @ NUL # zs) name = Inr (Some (name @ ''='' @ dec_int i @ b @ NUL # zs))"
      "b = [] \<or> hd b = CHR ''&''" by blast
  have "hd (b @ NUL # zs) = NUL \<or> hd (b @ NUL # zs) = CHR ''&''" using b(2) by (cases b) auto
  then have "\<not> is_digit (hd (b @ NUL # zs))" by (auto simp: is_digit_def)
  with c_atol_dec_int[OF assms(4,5), of "b @ NUL # zs"] b(1) show ?thesis
    by (simp add: http_arg_long_def at_def)
qed

section \<open>Properties\<close>

text \<open>
  C14. An argument that fits is stored as the request has it, with every \<open>%2C\<close> replaced by a comma and
  nothing else changed, whatever was in the array before.
\<close>

theorem http_arg_str_decodes:
  assumes "query_has req name val" "NUL \<notin> set req" "name \<noteq> []" "length p = len" "length val + 2 \<le> len"
  shows "\<exists>p'. http_arg_str (req @ NUL # zs) name p len = Inr (0, p') \<and> length p' = len
     \<and> cbuf_str p' = Inr (percent_decode val)"
  using http_arg_str_stores[OF assms] .

text \<open>
  A way to see that a name occurs first where the argument is: nothing before it starts with its
  first byte.
\<close>

lemma query_hasI:
  assumes "req = a @ name @ ''='' @ val @ b" "name \<noteq> []" "hd name \<notin> set a"
    and "b = [] \<or> hd b = CHR ''&''" "CHR ''&'' \<notin> set val"
  shows "query_has req name val"
proof -
  have "\<not> prefix name (drop i req)" if "i < length a" for i
  proof
    assume "prefix name (drop i req)"
    moreover have "drop i req = a ! i # drop (Suc i) a @ name @ ''='' @ val @ b"
      using that assms(1) by (simp add: Cons_nth_drop_Suc[symmetric])
    ultimately have "hd name = a ! i" using assms(2) by (cases name) auto
    with assms(3) that show False by simp
  qed
  with assms show ?thesis unfolding query_has_def by blast
qed

theorem http_arg_str_decodes_witness:
  "\<exists>p'. http_arg_str (''showsamp?timestamp=1&lables=CPU%2CPRG&encoding=none'' @ [NUL]) ''lables'' (uninit 1024) 1024 = Inr (0, p')
     \<and> cbuf_str p' = Inr ''CPU,PRG''"
proof -
  have "query_has ''showsamp?timestamp=1&lables=CPU%2CPRG&encoding=none'' ''lables'' ''CPU%2CPRG''"
    by (rule query_hasI[of _ "''showsamp?timestamp=1&''" _ _ "''&encoding=none''"]) simp_all
  from http_arg_str_decodes[OF this, of "uninit 1024" 1024 "[]"] show ?thesis by (auto simp: uninit_def)
qed

text \<open>
  C34. The terminator of a value that has exactly the length of the array is written one byte behind it.
  (The bound of the code is \<open>e - s > len\<close>.)
\<close>

theorem http_arg_str_off_by_one:
  assumes "query_has req name val" "NUL \<notin> set req" "name \<noteq> []" "length p = len" "length val = len"
  shows "http_arg_str (req @ NUL # zs) name p len = Inl OutOfBounds"
proof -
  from query_strstr[OF assms(1-3), of zs] obtain b where
    b: "c_strstr (req @ NUL # zs) name = Inr (Some (name @ ''='' @ val @ b @ NUL # zs))"
      "b = [] \<or> hd b = CHR ''&''" "NUL \<notin> set val" "NUL \<notin> set b" "CHR ''&'' \<notin> set val" by blast
  let ?s = "val @ b @ NUL # zs"
  obtain e where e: "c_strchr ?s (CHR ''&'') = Inr e"
    "(case e of Some e \<Rightarrow> Inr (length ?s - length e) | None \<Rightarrow> c_strlen ?s) = Inr (length val)"
    using value_length[OF b(2-5), of zs] by (auto simp: and_then_Inr_iff)
  have at: "at (name @ ''='' @ ?s) (length name) = Inr (CHR ''='')" by (simp add: at_def)
  show ?thesis
    using b(1) at e assms(4,5) by (simp add: http_arg_str_def Let_def buf_write_def)
qed

theorem http_arg_str_off_by_one_witness:
  "http_arg_str (''?type='' @ replicate 256 (CHR ''x'') @ [NUL]) ''type'' (uninit 256) 256 = Inl OutOfBounds"
proof -
  have "query_has (''?type='' @ replicate 256 (CHR ''x'')) ''type'' (replicate 256 (CHR ''x''))"
    by (rule query_hasI[of _ "''?''" _ _ "[]"]) simp_all
  from http_arg_str_off_by_one[OF this, of "uninit 256" 256 "[]"] show ?thesis by (simp add: uninit_def)
qed

text \<open>
  C22. A number that is printed into the query is read back as it was.
\<close>

theorem http_arg_long_reads:
  assumes "query_has req name (dec_int i)" "NUL \<notin> set req" "name \<noteq> []" "- (2 ^ 63) \<le> i" "i < 2 ^ 63"
  shows "http_arg_long (req @ NUL # zs) name = Inr (0, Some i)"
  by (rule arg_long_reads) (fact assms)+

theorem http_arg_long_reads_witness:
  "http_arg_long (''showsamp?timestamp=1670&lables=ALL'' @ [NUL]) ''timestamp'' = Inr (0, Some 1670)"
proof -
  have d: "dec_int 1670 = ''1670''" by code_simp
  have "query_has ''showsamp?timestamp=1670&lables=ALL'' ''timestamp'' (dec_int 1670)"
    unfolding d by (rule query_hasI[of _ "''showsamp?''" _ _ "''&lables=ALL''"]) simp_all
  from http_arg_long_reads[OF this, of "[]"] show ?thesis by simp
qed

text \<open>
  C21. A list of labels, encoded as a browser encodes it, arrives as it was sent.
\<close>

theorem http_arg_str_roundtrip:
  assumes "query_has req name (percent_encode labels)" "NUL \<notin> set req" "name \<noteq> []" "CHR ''%'' \<notin> set labels"
    and "length p = len" "length (percent_encode labels) + 2 \<le> len"
  shows "\<exists>p'. http_arg_str (req @ NUL # zs) name p len = Inr (0, p') \<and> cbuf_str p' = Inr labels"
  using http_arg_str_stores[OF assms(1-3,5,6), of zs] decode_encode[OF assms(4), of "[]"] by auto

theorem http_arg_str_roundtrip_witness:
  "\<exists>p'. http_arg_str (''showsamp?lables=CPU%2CMEM'' @ [NUL]) ''lables'' (uninit 64) 64 = Inr (0, p')
     \<and> cbuf_str p' = Inr ''CPU,MEM''"
proof -
  have "query_has ''showsamp?lables=CPU%2CMEM'' ''lables'' (percent_encode ''CPU,MEM'')"
    by (rule query_hasI[of _ "''showsamp?''" _ _ "[]"]) simp_all
  from http_arg_str_roundtrip[OF this, of "uninit 64" 64 "[]"] show ?thesis by (simp add: uninit_def)
qed

end
