(* ===== verification/Connection.thy ===== *)
theory Connection
  imports Output
begin

text \<open>
  Connections, their registry and the sockets that are listened on: \<open>connection.h\<close> and
  \<open>connection.c\<close>.

  The server handles one connection at a time. \<open>kernel\<close> is what the operating system (and, for TLS,
  OpenSSL) does for it: the open descriptors, \<open>errno\<close>, the bytes that were sent, and what the coming
  calls will answer. A list of answers that has run out means success. \<open>struct connection\<close> and \<open>struct tls_connection\<close> are one
  record; \<open>c_ssl\<close> is NULL (\<open>False\<close>) for a plain socket. A pointer to a \<open>connection_type\<close> is the
  name of the static object.
\<close>

section \<open>Data\<close>

datatype conn_type = CT_Socket | CT_TLS

record connection =
  c_type :: conn_type
  c_fd :: int
  c_port :: int
  c_is_local :: int
  c_bindaddr :: "string option"
  c_ssl :: bool

datatype in_event = In_data bytes | In_eof | In_err nat

datatype wr_answer = Wr_n nat | Wr_err nat

datatype af = AF_INET | AF_INET6

record addr_answer =
  aa_socket :: "nat + int"
  aa_reuseaddr :: "nat option"
  aa_reuseport :: "nat option"
  aa_bind :: "nat option"
  aa_listen :: "nat option"

record kernel =
  k_errno :: nat
  k_open :: "int list"
  k_out :: bytes
  k_in :: "in_event list"
  k_wr :: "wr_answer list"
  k_ctl :: "nat option list"
  k_accept :: "(nat + int) list"
  k_getaddrinfo :: "string option \<Rightarrow> string \<Rightarrow> af \<Rightarrow> addr_answer list option"
  k_tls_ctx :: bool
  k_ssl_new :: bool
  k_ssl_accept :: "nat option"

definition EAGAIN :: nat where "EAGAIN = 11"
definition CONN_TYPE_MAX :: nat where "CONN_TYPE_MAX = 8"

text \<open>A call that only succeeds or fails: \<open>setsockopt\<close>, \<open>fcntl\<close>.\<close>

definition k_call :: "kernel \<Rightarrow> int \<times> kernel" where
  "k_call k =
     (case k_ctl k of
        [] \<Rightarrow> (0, k)
      | None # as \<Rightarrow> (0, k\<lparr>k_ctl := as\<rparr>)
      | Some e # as \<Rightarrow> (- 1, k\<lparr>k_ctl := as, k_errno := e\<rparr>))"

text \<open>\<open>write\<close> and \<open>writev\<close>, which may take only a part.\<close>

definition k_send :: "bytes \<Rightarrow> kernel \<Rightarrow> int \<times> kernel" where
  "k_send bs k =
     (case k_wr k of
        [] \<Rightarrow> (int (length bs), k\<lparr>k_out := k_out k @ bs\<rparr>)
      | Wr_n n # as \<Rightarrow> (int (min n (length bs)), k\<lparr>k_wr := as, k_out := k_out k @ take n bs\<rparr>)
      | Wr_err e # as \<Rightarrow> (- 1, k\<lparr>k_wr := as, k_errno := e\<rparr>))"

text \<open>\<open>read\<close>: 0 at the end of the stream, where \<open>errno\<close> stays as it is.\<close>

definition k_recv :: "nat \<Rightarrow> kernel \<Rightarrow> int \<times> bytes \<times> kernel" where
  "k_recv n k =
     (case k_in k of
        [] \<Rightarrow> (0, [], k)
      | In_eof # es \<Rightarrow> (0, [], k)
      | In_err e # es \<Rightarrow> (- 1, [], k\<lparr>k_in := es, k_errno := e\<rparr>)
      | In_data bs # es \<Rightarrow>
          if length bs \<le> n then (int (length bs), bs, k\<lparr>k_in := es\<rparr>)
          else (int n, take n bs, k\<lparr>k_in := In_data (drop n bs) # es\<rparr>))"

definition k_close :: "int \<Rightarrow> kernel \<Rightarrow> kernel" where
  "k_close fd k = k\<lparr>k_open := removeAll fd (k_open k)\<rparr>"

section \<open>The registry\<close>

definition ct_get_type :: "conn_type \<Rightarrow> string" where
  "ct_get_type ct = (case ct of CT_Socket \<Rightarrow> ''tcp'' | CT_TLS \<Rightarrow> ''tls'')"

definition c_tolower :: "byte \<Rightarrow> byte" where
  "c_tolower c = (let n = of_char c :: nat in if 65 \<le> n \<and> n \<le> 90 then char_of (n + 32) else c)"

definition strcaseeq :: "string \<Rightarrow> string \<Rightarrow> bool" where
  "strcaseeq s t \<longleftrightarrow> map c_tolower s = map c_tolower t"

text \<open>
  The registered types, in order of their slots. Both the duplicate and the new type are answered with
  \<open>- errno\<close>, whatever \<open>errno\<close> is.
\<close>

type_synonym registry = "conn_type list"

definition conntype_register :: "conn_type \<Rightarrow> kernel \<Rightarrow> registry \<Rightarrow> int \<times> registry" where
  "conntype_register ct k reg =
     (if \<exists>t \<in> set (take CONN_TYPE_MAX reg). strcaseeq (ct_get_type ct) (ct_get_type t)
      then (- int (k_errno k), reg)
      else if length reg \<ge> CONN_TYPE_MAX then (- 12, reg)
      else (- int (k_errno k), reg @ [ct]))"

text \<open>\<open>register_conntype_tls\<close> is empty when the program is built without \<open>USE_TLS\<close>.\<close>

definition conntype_initialize :: "bool \<Rightarrow> kernel \<Rightarrow> registry \<Rightarrow> registry" where
  "conntype_initialize use_tls k reg =
     (let reg = snd (conntype_register CT_Socket k reg)
      in if use_tls then snd (conntype_register CT_TLS k reg) else reg)"

fun get_conntype_from :: "nat \<Rightarrow> string \<Rightarrow> registry \<Rightarrow> (nat \<times> conn_type) option" where
  "get_conntype_from i name [] = None"
| "get_conntype_from i name (ct # cts) =
     (if strcaseeq name (ct_get_type ct) then Some (i, ct) else get_conntype_from (Suc i) name cts)"

definition get_conntype_by_name :: "string \<Rightarrow> registry \<Rightarrow> conn_type option" where
  "get_conntype_by_name name reg = map_option snd (get_conntype_from 0 name (take CONN_TYPE_MAX reg))"

definition get_conntype_index_by_name :: "string \<Rightarrow> registry \<Rightarrow> int" where
  "get_conntype_index_by_name name reg =
     (case get_conntype_from 0 name (take CONN_TYPE_MAX reg) of None \<Rightarrow> - 1 | Some (i, _) \<Rightarrow> int i)"

section \<open>Listening\<close>

text \<open>
  The loop over the addresses. The result is the state after the loop with \<open>sockfd\<close>: a
  socket that listens, or \<open>-1\<close>; the part after \<open>error:\<close> is included.
\<close>

definition fail_close :: "int \<Rightarrow> kernel \<Rightarrow> int \<times> kernel" where
  "fail_close fd k = (- 1, if fd = - 1 then k else k_close fd k)"

fun try_addrs :: "addr_answer list \<Rightarrow> kernel \<Rightarrow> int \<times> kernel" where
  "try_addrs [] k = (- 1, k)"
| "try_addrs (a # as) k =
     (case aa_socket a of
        Inl e \<Rightarrow> try_addrs as (k\<lparr>k_errno := e\<rparr>)
      | Inr fd \<Rightarrow>
          let k = k\<lparr>k_open := fd # k_open k\<rparr>
          in case aa_reuseaddr a of
               Some e \<Rightarrow> fail_close fd (k\<lparr>k_errno := e\<rparr>)
             | None \<Rightarrow>
             (case aa_reuseport a of
               Some e \<Rightarrow> fail_close fd (k\<lparr>k_errno := e\<rparr>)
             | None \<Rightarrow>
             (case aa_bind a of
               Some e \<Rightarrow> try_addrs as (k_close fd (k\<lparr>k_errno := e\<rparr>))
             | None \<Rightarrow>
             (case aa_listen a of
               Some e \<Rightarrow> try_addrs as (k_close fd (k\<lparr>k_errno := e\<rparr>))
             | None \<Rightarrow> (fd, k)))))"

text \<open>
  \<open>snprintf (_port, 6, "%d", port)\<close> cuts the port to five characters. \<open>freeaddrinfo (res)\<close> runs on every path,
  also when \<open>getaddrinfo\<close> failed and \<open>res\<close> was never set.
\<close>

definition listen_to_port :: "int \<Rightarrow> string option \<Rightarrow> af \<Rightarrow> kernel \<Rightarrow> (int \<times> kernel) res" where
  "listen_to_port port bindaddr af k =
     (let port_s = take 5 (dec_int port);
          bindaddr = (if bindaddr = Some ''*'' then None else bindaddr);
          bindaddr = (if af = AF_INET6 \<and> bindaddr = Some ''::*'' then None else bindaddr)
      in case k_getaddrinfo k bindaddr port_s af of
           None \<Rightarrow> Inl Indeterminate
         | Some as \<Rightarrow> Inr (try_addrs as k))"

section \<open>Lemmas\<close>

lemma get_conntype_from_Some:
  "get_conntype_from k n reg = Some (i, ct) \<Longrightarrow>
     k \<le> i \<and> i - k < length reg \<and> reg ! (i - k) = ct \<and> strcaseeq n (ct_get_type ct)"
proof (induction reg arbitrary: k)
  case (Cons c reg)
  show ?case
  proof (cases "strcaseeq n (ct_get_type c)")
    case False
    with Cons.prems have "get_conntype_from (Suc k) n reg = Some (i, ct)" by simp
    from Cons.IH[OF this] show ?thesis by (auto simp: nth_Cons' Suc_le_eq)
  qed (use Cons.prems in auto)
qed simp

lemma get_conntype_from_None:
  "get_conntype_from k n reg = None \<longleftrightarrow> (\<forall>t \<in> set reg. \<not> strcaseeq n (ct_get_type t))"
  by (induction reg arbitrary: k) auto

lemma get_conntype_from_append:
  "get_conntype_from k n (reg @ reg') =
     (case get_conntype_from k n reg of None \<Rightarrow> get_conntype_from (k + length reg) n reg' | r \<Rightarrow> r)"
  by (induction reg arbitrary: k) (auto split: option.splits)

lemma strcaseeq_refl [simp]: "strcaseeq s s"
  by (simp add: strcaseeq_def)

lemma k_close_open: "set (k_open (k_close fd k)) = set (k_open k) - {fd}"
  by (simp add: k_close_def)

text \<open>A new descriptor is none of the open ones.\<close>

fun fresh_fds :: "int list \<Rightarrow> addr_answer list \<Rightarrow> bool" where
  "fresh_fds fds [] \<longleftrightarrow> True"
| "fresh_fds fds (a # as) \<longleftrightarrow>
     (case aa_socket a of Inl e \<Rightarrow> True | Inr fd \<Rightarrow> 0 \<le> fd \<and> fd \<notin> set fds) \<and> fresh_fds fds as"

lemma try_addrs_fds:
  assumes "fresh_fds (k_open k) as" "try_addrs as k = (fd, k')"
  shows "(fd = - 1 \<and> set (k_open k') = set (k_open k))
    \<or> (0 \<le> fd \<and> fd \<notin> set (k_open k) \<and> set (k_open k') = insert fd (set (k_open k)))"
  using assms
proof (induction as k rule: try_addrs.induct)
  case (2 a as k)
  show ?case
  proof (cases "aa_socket a")
    case (Inl e)
    with 2 show ?thesis by simp
  next
    case (Inr s)
    let ?k1 = "k\<lparr>k_open := s # k_open k\<rparr>"
    have s: "0 \<le> s" "s \<notin> set (k_open k)" and fr: "fresh_fds (k_open k) as" using 2(4) Inr by auto
    have kept: "k_open (k_close s (?k1\<lparr>k_errno := e\<rparr>)) = k_open k" for e
      using s by (simp add: k_close_def)
    show ?thesis
      using 2(2,3)[OF Inr refl] 2(5) Inr fr s kept
      by (auto simp: Let_def fail_close_def split: option.splits if_splits)
  qed
qed simp

section \<open>Properties\<close>

text \<open>
  After registration a type is found by its name, whatever the case, at the slot that the index
  lookup says; registering a name a second time changes nothing. The two lookups agree for every name.
\<close>

theorem conntype_lookup_agree:
  "(case get_conntype_by_name name reg of
      None \<Rightarrow> get_conntype_index_by_name name reg = - 1
    | Some ct \<Rightarrow> \<exists>i. get_conntype_index_by_name name reg = int i \<and> i < CONN_TYPE_MAX \<and> i < length reg
        \<and> reg ! i = ct \<and> strcaseeq name (ct_get_type ct))
   \<and> (let reg' = snd (conntype_register ct0 k reg)
      in length reg < CONN_TYPE_MAX \<longrightarrow>
         get_conntype_by_name (ct_get_type ct0) reg' \<noteq> None \<and> conntype_register ct0 k reg' = (- int (k_errno k), reg'))"
proof (intro conjI)
  show "case get_conntype_by_name name reg of
      None \<Rightarrow> get_conntype_index_by_name name reg = - 1
    | Some ct \<Rightarrow> \<exists>i. get_conntype_index_by_name name reg = int i \<and> i < CONN_TYPE_MAX \<and> i < length reg
        \<and> reg ! i = ct \<and> strcaseeq name (ct_get_type ct)"
    using get_conntype_from_Some[of 0 name "take CONN_TYPE_MAX reg"]
    by (auto simp: get_conntype_by_name_def get_conntype_index_by_name_def split: option.splits)
  show "let reg' = snd (conntype_register ct0 k reg)
      in length reg < CONN_TYPE_MAX \<longrightarrow>
         get_conntype_by_name (ct_get_type ct0) reg' \<noteq> None \<and> conntype_register ct0 k reg' = (- int (k_errno k), reg')"
    using get_conntype_from_None[of 0 "ct_get_type ct0" reg]
    by (auto simp: conntype_register_def get_conntype_by_name_def get_conntype_from_append Let_def split: option.splits)
qed

text \<open>
  C25. \<open>listen_to_port\<close> leaks no descriptor: when it fails, the open descriptors are those from before, and
  when it succeeds there is exactly one more, the one that it returns, whichever addresses failed
  on the way.
\<close>

theorem listen_to_port_no_leak:
  assumes "listen_to_port port bindaddr af k = Inr (fd, k')"
    and "\<forall>a p f as. k_getaddrinfo k a p f = Some as \<longrightarrow> fresh_fds (k_open k) as"
  shows "(fd = - 1 \<and> set (k_open k') = set (k_open k))
    \<or> (0 \<le> fd \<and> fd \<notin> set (k_open k) \<and> set (k_open k') = insert fd (set (k_open k)))"
proof -
  obtain as where "\<exists>a p f. k_getaddrinfo k a p f = Some as" "try_addrs as k = (fd, k')"
    using assms(1) by (auto simp: listen_to_port_def Let_def split: option.splits)
  then show ?thesis using try_addrs_fds[of k as fd k'] assms(2) by blast
qed

definition sample_kernel :: kernel where
  "sample_kernel = \<lparr>k_errno = 0, k_open = [0, 1, 2], k_out = [], k_in = [], k_wr = [], k_ctl = [], k_accept = [Inr 4],
     k_getaddrinfo = \<lambda>a p f. if p = ''2867'' then Some
        [\<lparr>aa_socket = Inr 3, aa_reuseaddr = None, aa_reuseport = None, aa_bind = Some 98, aa_listen = None\<rparr>,
         \<lparr>aa_socket = Inr 3, aa_reuseaddr = None, aa_reuseport = None, aa_bind = None, aa_listen = None\<rparr>]
       else None,
     k_tls_ctx = False, k_ssl_new = True, k_ssl_accept = None\<rparr>"

theorem listen_to_port_no_leak_witness:
  "\<exists>k'. listen_to_port 2867 (Some ''*'') AF_INET sample_kernel = Inr (3, k') \<and> set (k_open k') = {0, 1, 2, 3}"
proof -
  have "dec_int 2867 = ''2867''" by code_simp
  then have run: "listen_to_port 2867 (Some ''*'') AF_INET sample_kernel
      = Inr (3, sample_kernel\<lparr>k_errno := 98, k_open := [3, 0, 1, 2]\<rparr>)"
    by (simp add: listen_to_port_def sample_kernel_def Let_def k_close_def)
  have "\<forall>a p f as. k_getaddrinfo sample_kernel a p f = Some as \<longrightarrow> fresh_fds (k_open sample_kernel) as"
    by (simp add: sample_kernel_def)
  from listen_to_port_no_leak[OF run this] run show ?thesis by (auto simp: sample_kernel_def)
qed

text \<open>
  When the address cannot be resolved, the code calls \<open>freeaddrinfo\<close> on a pointer that it
  never set.
\<close>

theorem listen_to_port_unresolved:
  assumes "\<forall>a. k_getaddrinfo k a (take 5 (dec_int port)) af = None"
  shows "listen_to_port port bindaddr af k = Inl Indeterminate"
  using assms by (simp add: listen_to_port_def Let_def)

theorem listen_to_port_unresolved_witness:
  "listen_to_port 80 (Some ''no.such.host'') AF_INET sample_kernel = Inl Indeterminate"
proof -
  have "dec_int 80 = ''80''" by code_simp
  then show ?thesis
    using listen_to_port_unresolved[of sample_kernel 80 AF_INET] by (simp add: sample_kernel_def)
qed

end
