(* ===== verification/Socket.thy ===== *)
theory Socket
  imports Connection
begin

text \<open>
  Plain TCP connections: \<open>socket.c\<close>. Every operation takes the kernel and the connection and returns both
  with its result. A call that fails returns \<open>-1\<close> for the writes, as the code passes on what
  \<open>write\<close> returned, and \<open>- errno\<close> for the others.
\<close>

section \<open>Operations\<close>

definition conn_socket_create :: "int \<Rightarrow> string option \<Rightarrow> connection" where
  "conn_socket_create port addr =
     \<lparr>c_type = CT_Socket, c_fd = - 1, c_port = port, c_is_local = 0, c_bindaddr = addr, c_ssl = False\<rparr>"

text \<open>\<open>strchr (listener->bindaddr, ':')\<close>, which reads NULL when there is no address.\<close>

definition conn_socket_listen :: "kernel \<Rightarrow> connection \<Rightarrow> (int \<times> kernel \<times> connection) res" where
  "conn_socket_listen k listener =
     (if c_port listener = - 1 then Inr (- int EINVAL, k, listener)
      else case c_bindaddr listener of
        None \<Rightarrow> Inl NullDeref
      | Some a \<Rightarrow>
          and_then (listen_to_port (c_port listener) (Some a)
                      (if CHR '':'' \<in> set a then AF_INET6 else AF_INET) k) (\<lambda>(listenfd, k).
            if listenfd = - 1 then Inr (- int EINVAL, k, listener)
            else Inr (0, k, listener\<lparr>c_fd := listenfd\<rparr>)))"

definition conn_socket_accept :: "connection \<Rightarrow> kernel \<Rightarrow> connection \<Rightarrow> int \<times> kernel \<times> connection" where
  "conn_socket_accept listener k conn =
     (case k_accept k of
        [] \<Rightarrow> (- int EAGAIN, k\<lparr>k_errno := EAGAIN\<rparr>, conn)
      | Inl e # as \<Rightarrow> (- int e, k\<lparr>k_accept := as, k_errno := e\<rparr>, conn)
      | Inr fd # as \<Rightarrow> (0, k\<lparr>k_accept := as, k_open := fd # k_open k\<rparr>, conn\<lparr>c_fd := fd\<rparr>))"

text \<open>\<open>shutdown\<close> ends the stream in both directions and keeps the descriptor.\<close>

definition conn_socket_shutdown :: "kernel \<Rightarrow> connection \<Rightarrow> kernel \<times> connection" where
  "conn_socket_shutdown k conn =
     (if c_fd conn = - 1 then (k, conn) else (k\<lparr>k_in := []\<rparr>, conn))"

definition conn_socket_close :: "kernel \<Rightarrow> connection \<Rightarrow> kernel \<times> connection" where
  "conn_socket_close k conn =
     (if c_fd conn = - 1 then (k, conn) else (k_close (c_fd conn) k, conn\<lparr>c_fd := - 1\<rparr>))"

definition conn_socket_write :: "bytes \<Rightarrow> kernel \<Rightarrow> connection \<Rightarrow> (int \<times> kernel) res" where
  "conn_socket_write data k conn = Inr (if c_fd conn = - 1 then (- int EINVAL, k) else k_send data k)"

definition conn_socket_writev :: "bytes list \<Rightarrow> kernel \<Rightarrow> connection \<Rightarrow> (int \<times> kernel) res" where
  "conn_socket_writev iov k conn = Inr (if c_fd conn = - 1 then (- int EINVAL, k) else k_send (concat iov) k)"

text \<open>
  The result and the bytes that were put into the buffer. At the end of the stream \<open>read\<close> gives 0 and
  leaves \<open>errno\<close> alone, so the result is minus an old \<open>errno\<close>, or 0.
\<close>

definition conn_socket_read :: "nat \<Rightarrow> kernel \<Rightarrow> connection \<Rightarrow> int \<times> bytes \<times> kernel" where
  "conn_socket_read buf_len k conn =
     (if c_fd conn = - 1 then (- int EINVAL, [], k)
      else let (ret, bs, k) = k_recv buf_len k
           in if ret \<le> 0
              then (if k_errno k \<noteq> EAGAIN then - int (k_errno k) else - int EAGAIN, [], k)
              else (ret, bs, k))"

end
