(* ===== verification/Tls.thy ===== *)
theory Tls
  imports Socket
begin

text \<open>
  TLS connections: \<open>tls.c\<close>. OpenSSL is not in the repository; what its functions answer is part of the
  kernel (\<open>k_tls_ctx\<close>: the context exists; \<open>k_ssl_new\<close>, \<open>k_ssl_accept\<close>) or an argument
  (\<open>ssl_answers\<close>). \<open>SSL_read\<close> and \<open>SSL_write\<close> carry the bytes of the stream like the plain calls.
  OpenSSL does not set \<open>errno\<close> when it fails by itself, so the error paths that return \<open>- errno\<close> return
  what \<open>errno\<close> happened to be.
\<close>

section \<open>Configuration\<close>

record tls_config =
  tls_port :: int
  tls_addr :: "string option"
  ca_cert_file :: "string option"
  cert_file :: "string option"
  key_file :: "string option"

record ssl_answers =
  sa_ctx_new :: bool
  sa_use_cert :: bool
  sa_use_key :: bool
  sa_check_key :: bool
  sa_load_ca :: bool
  sa_errno :: "nat option"

text \<open>\<open>sa_errno\<close> is the \<open>errno\<close> that the first failing call sets, if it sets one.\<close>

definition tls_configure :: "tls_config \<Rightarrow> ssl_answers \<Rightarrow> kernel \<Rightarrow> int \<times> kernel" where
  "tls_configure cfg sa k =
     (if cert_file cfg = None \<or> key_file cfg = None \<or> ca_cert_file cfg = None
         \<or> \<not> sa_ctx_new sa \<or> \<not> sa_use_cert sa \<or> \<not> sa_use_key sa \<or> \<not> sa_check_key sa \<or> \<not> sa_load_ca sa
      then let k = (case sa_errno sa of None \<Rightarrow> k | Some e \<Rightarrow> k\<lparr>k_errno := e\<rparr>) in (- int (k_errno k), k)
      else (0, k\<lparr>k_tls_ctx := True\<rparr>))"

definition tls_cleanup :: "kernel \<Rightarrow> kernel" where
  "tls_cleanup k = (if k_tls_ctx k then k\<lparr>k_tls_ctx := False\<rparr> else k)"

section \<open>Operations\<close>

definition conn_tls_create :: "int \<Rightarrow> string option \<Rightarrow> connection" where
  "conn_tls_create port addr =
     \<lparr>c_type = CT_TLS, c_fd = - 1, c_port = port, c_is_local = 0, c_bindaddr = addr, c_ssl = False\<rparr>"

text \<open>
  \<open>get_conntype_by_name (CONN_TYPE_SOCKET)\<close> is dereferenced without a check. The plain operations are the
  ones that it points to.
\<close>

definition with_socket_type :: "registry \<Rightarrow> 'a \<Rightarrow> 'a res" where
  "with_socket_type reg x =
     (case get_conntype_by_name ''tcp'' reg of None \<Rightarrow> Inl NullDeref | Some _ \<Rightarrow> Inr x)"

definition conn_tls_listen :: "registry \<Rightarrow> kernel \<Rightarrow> connection \<Rightarrow> (int \<times> kernel \<times> connection) res" where
  "conn_tls_listen reg k listener = and_then (with_socket_type reg ()) (\<lambda>_. conn_socket_listen k listener)"

definition conn_tls_accept ::
    "registry \<Rightarrow> connection \<Rightarrow> kernel \<Rightarrow> connection \<Rightarrow> (int \<times> kernel \<times> connection) res" where
  "conn_tls_accept reg listener k conn =
     and_then (with_socket_type reg (conn_socket_accept listener k conn)) (\<lambda>(ret, k, conn).
       if ret < 0 then Inr (- int (k_errno k), k, conn)
       else if \<not> k_tls_ctx k then Inr (- int EINVAL, k, conn)
       else let conn = conn\<lparr>c_ssl := k_ssl_new k\<rparr>
            in if \<not> k_ssl_new k then Inr (- int EINVAL, k, conn)
               else if c_fd conn = - 1 then Inr (- int EINVAL, k, conn)
               else case k_ssl_accept k of
                      Some e \<Rightarrow> Inr (- int (k_errno (k\<lparr>k_errno := e\<rparr>)), k\<lparr>k_errno := e\<rparr>, conn)
                    | None \<Rightarrow> Inr (0, k, conn))"

definition conn_shutdown_tls :: "registry \<Rightarrow> kernel \<Rightarrow> connection \<Rightarrow> (kernel \<times> connection) res" where
  "conn_shutdown_tls reg k conn =
     (let conn = (if c_ssl conn then conn\<lparr>c_ssl := False\<rparr> else conn)
      in with_socket_type reg (conn_socket_shutdown k conn))"

definition conn_close_tls :: "registry \<Rightarrow> kernel \<Rightarrow> connection \<Rightarrow> (kernel \<times> connection) res" where
  "conn_close_tls reg k conn =
     (let conn = (if c_ssl conn then conn\<lparr>c_ssl := False\<rparr> else conn)
      in with_socket_type reg (conn_socket_close k conn))"

definition conn_write_tls :: "bytes \<Rightarrow> kernel \<Rightarrow> connection \<Rightarrow> (int \<times> kernel) res" where
  "conn_write_tls data k conn =
     Inr (if \<not> c_ssl conn then (- int EINVAL, k)
          else let (ret, k) = k_send data k
               in if ret < 0 then (- int (k_errno k), k) else (0, k))"

text \<open>
  The buffer has room for the first three parts, whatever \<open>iovcnt\<close> is; fewer parts are read
  beyond the array, more are copied beyond the buffer.
\<close>

fun copy_iov :: "nat \<Rightarrow> bytes \<Rightarrow> bytes list \<Rightarrow> bytes res" where
  "copy_iov cap acc [] = Inr acc"
| "copy_iov cap acc (v # vs) =
     (if length acc + length v > cap then Inl OutOfBounds else copy_iov cap (acc @ v) vs)"

definition conn_writev_tls :: "bytes list \<Rightarrow> kernel \<Rightarrow> connection \<Rightarrow> (int \<times> kernel) res" where
  "conn_writev_tls iov k conn =
     (if \<not> c_ssl conn then Inr (- int EINVAL, k)
      else if length iov < 3 then Inl OutOfBounds
      else let total = sum_list (map length (take 3 iov))
           in and_then (copy_iov total [] iov) (\<lambda>buf.
                let (ret, k) = k_send buf k
                in Inr (if ret < 0 then - int (k_errno k) else ret, k)))"

definition conn_read_tls :: "nat \<Rightarrow> kernel \<Rightarrow> connection \<Rightarrow> int \<times> bytes \<times> kernel" where
  "conn_read_tls buf_len k conn =
     (if \<not> c_ssl conn then (- int EINVAL, [], k)
      else let (ret, bs, k) = k_recv buf_len k
           in if ret \<le> 0
              then (if k_errno k \<noteq> EAGAIN then - int (k_errno k) else - int EAGAIN, [], k)
              else (ret, bs, k))"

end
