(* ===== verification/ConnOps.thy ===== *)
theory ConnOps
  imports Tls
begin

text \<open>
  The calls through \<open>conn->type\<close> of \<open>connection.h\<close>, and the contract that both kinds of connection keep,
  as a locale: what \<open>httpd.c\<close> relies on when it closes a connection on every path, some of them twice.
\<close>

section \<open>Dispatch\<close>

definition conn_create :: "conn_type \<Rightarrow> int \<Rightarrow> string option \<Rightarrow> connection" where
  "conn_create ct port addr = (case ct of CT_Socket \<Rightarrow> conn_socket_create port addr | CT_TLS \<Rightarrow> conn_tls_create port addr)"

definition conn_listen :: "registry \<Rightarrow> kernel \<Rightarrow> connection \<Rightarrow> (int \<times> kernel \<times> connection) res" where
  "conn_listen reg k listener =
     (case c_type listener of CT_Socket \<Rightarrow> conn_socket_listen k listener | CT_TLS \<Rightarrow> conn_tls_listen reg k listener)"

definition conn_accept ::
    "registry \<Rightarrow> connection \<Rightarrow> kernel \<Rightarrow> connection \<Rightarrow> (int \<times> kernel \<times> connection) res" where
  "conn_accept reg listener k conn =
     (case c_type conn of
        CT_Socket \<Rightarrow> Inr (conn_socket_accept listener k conn)
      | CT_TLS \<Rightarrow> conn_tls_accept reg listener k conn)"

definition conn_close :: "registry \<Rightarrow> kernel \<Rightarrow> connection \<Rightarrow> (kernel \<times> connection) res" where
  "conn_close reg k conn =
     (case c_type conn of CT_Socket \<Rightarrow> Inr (conn_socket_close k conn) | CT_TLS \<Rightarrow> conn_close_tls reg k conn)"

definition conn_shutdown :: "registry \<Rightarrow> kernel \<Rightarrow> connection \<Rightarrow> (kernel \<times> connection) res" where
  "conn_shutdown reg k conn =
     (case c_type conn of CT_Socket \<Rightarrow> Inr (conn_socket_shutdown k conn) | CT_TLS \<Rightarrow> conn_shutdown_tls reg k conn)"

definition conn_write :: "bytes \<Rightarrow> kernel \<Rightarrow> connection \<Rightarrow> (int \<times> kernel) res" where
  "conn_write data k conn =
     (case c_type conn of CT_Socket \<Rightarrow> conn_socket_write data k conn | CT_TLS \<Rightarrow> conn_write_tls data k conn)"

definition conn_writev :: "bytes list \<Rightarrow> kernel \<Rightarrow> connection \<Rightarrow> (int \<times> kernel) res" where
  "conn_writev iov k conn =
     (case c_type conn of CT_Socket \<Rightarrow> conn_socket_writev iov k conn | CT_TLS \<Rightarrow> conn_writev_tls iov k conn)"

definition conn_read :: "nat \<Rightarrow> kernel \<Rightarrow> connection \<Rightarrow> int \<times> bytes \<times> kernel" where
  "conn_read n k conn =
     (case c_type conn of CT_Socket \<Rightarrow> conn_socket_read n k conn | CT_TLS \<Rightarrow> conn_read_tls n k conn)"

text \<open>
  What a connection of each kind can send: a plain one needs a descriptor, a TLS one its SSL object.
\<close>

definition conn_up :: "connection \<Rightarrow> bool" where
  "conn_up c \<longleftrightarrow> (case c_type c of CT_Socket \<Rightarrow> c_fd c \<noteq> - 1 | CT_TLS \<Rightarrow> c_ssl c)"

section \<open>The contract\<close>

text \<open>
  \<open>up\<close>: the connection can carry data. \<open>fd\<close>: its descriptor, \<open>-1\<close> when it has none. Closing releases exactly
  the descriptor, leaves the connection down and without one, and does nothing to a connection that is already closed;
  a write on a connection that is down fails and sends nothing; one that is up sends the parts in order.
\<close>

locale closable =
  fixes up :: "'c \<Rightarrow> bool" and fd :: "'c \<Rightarrow> int"
    and close :: "kernel \<Rightarrow> 'c \<Rightarrow> (kernel \<times> 'c) res"
    and writev :: "bytes list \<Rightarrow> kernel \<Rightarrow> 'c \<Rightarrow> (int \<times> kernel) res"
  assumes close_down: "close k c = Inr (k', c') \<Longrightarrow> \<not> up c' \<and> fd c' = - 1"
    and close_fd: "close k c = Inr (k', c') \<Longrightarrow>
      k' = (if fd c = - 1 then k else k_close (fd c) k)"
    and close_total: "\<exists>k' c'. close k c = Inr (k', c')"
    and close_idle: "\<not> up c \<Longrightarrow> fd c = - 1 \<Longrightarrow> close k c = Inr (k, c)"
    and writev_down: "\<not> up c \<Longrightarrow> writev vs k c = Inr (- int EINVAL, k)"
    and writev_up: "up c \<Longrightarrow> k_wr k = [] \<Longrightarrow>
      writev [a, b, d] k c = Inr (int (length a + length b + length d), k\<lparr>k_out := k_out k @ a @ b @ d\<rparr>)"
begin

lemma close_twice:
  "and_then (close k c) (\<lambda>(k, c). close k c) = close k c"
proof -
  obtain k' c' where c: "close k c = Inr (k', c')" using close_total by blast
  from close_down[OF c] close_idle[of c' k'] c show ?thesis by simp
qed

lemma closed_sends_nothing:
  "close k c = Inr (k', c') \<Longrightarrow> writev vs k' c' = Inr (- int EINVAL, k')"
  using close_down writev_down by blast

lemma close_keeps_others:
  "close k c = Inr (k', c') \<Longrightarrow> set (k_open k') = set (k_open k) - (if fd c = - 1 then {} else {fd c})"
  by (drule close_fd) (auto simp: k_close_def)

lemma close_keeps_out: "close k c = Inr (k', c') \<Longrightarrow> k_out k' = k_out k"
  by (drule close_fd) (auto simp: k_close_def)

end

text \<open>
  A plain connection never has an SSL object, a TLS one is down without one; the contract is
  about the connections of one kind, and about both together when the plain type is registered.
\<close>

definition plain_up :: "connection \<Rightarrow> bool" where
  "plain_up c \<longleftrightarrow> c_fd c \<noteq> - 1"

lemma copy_iov_all: "sum_list (map length vs) + length acc \<le> n \<Longrightarrow> copy_iov n acc vs = Inr (acc @ concat vs)"
  by (induction vs arbitrary: acc) auto

lemma k_send_all: "k_wr k = [] \<Longrightarrow> k_send bs k = (int (length bs), k\<lparr>k_out := k_out k @ bs\<rparr>)"
  by (simp add: k_send_def)

interpretation plain: closable plain_up c_fd "\<lambda>k c. Inr (conn_socket_close k c)" conn_socket_writev
  by unfold_locales (auto simp: conn_socket_close_def conn_socket_writev_def plain_up_def k_send_all split: if_splits)

definition both_types :: registry where
  "both_types = [CT_Socket, CT_TLS]"

lemma tcp_registered [simp]: "with_socket_type both_types x = Inr x"
  by (simp add: with_socket_type_def get_conntype_by_name_def both_types_def CONN_TYPE_MAX_def ct_get_type_def)

lemma writev_tls_three:
  "c_ssl c \<Longrightarrow> k_wr k = [] \<Longrightarrow>
     conn_writev_tls [a, b, d] k c = Inr (int (length a + length b + length d), k\<lparr>k_out := k_out k @ a @ b @ d\<rparr>)"
  by (simp add: conn_writev_tls_def k_send_all copy_iov_all Let_def)

interpretation tls: closable c_ssl c_fd "conn_close_tls both_types" conn_writev_tls
proof
  show "conn_close_tls both_types k c = Inr (k', c') \<Longrightarrow> \<not> c_ssl c' \<and> c_fd c' = - 1" for k c k' c'
    by (auto simp: conn_close_tls_def conn_socket_close_def Let_def split: if_splits)
  show "conn_close_tls both_types k c = Inr (k', c') \<Longrightarrow> k' = (if c_fd c = - 1 then k else k_close (c_fd c) k)" for k c k' c'
    by (auto simp: conn_close_tls_def conn_socket_close_def Let_def split: if_splits)
qed (auto simp: conn_close_tls_def conn_socket_close_def conn_writev_tls_def k_send_all Let_def copy_iov_all)

text \<open>Through the dispatch both kinds keep it.\<close>

interpretation conn: closable conn_up c_fd "conn_close both_types" conn_writev
proof
  show "conn_close both_types k c = Inr (k', c') \<Longrightarrow> \<not> conn_up c' \<and> c_fd c' = - 1" for k c k' c'
    by (auto simp: conn_close_def conn_up_def conn_close_tls_def conn_socket_close_def Let_def split: conn_type.splits if_splits)
  show "conn_close both_types k c = Inr (k', c') \<Longrightarrow> k' = (if c_fd c = - 1 then k else k_close (c_fd c) k)" for k c k' c'
    by (auto simp: conn_close_def conn_close_tls_def conn_socket_close_def Let_def split: conn_type.splits if_splits)
  show "\<exists>k' c'. conn_close both_types k c = Inr (k', c')" for k c
    by (simp add: conn_close_def conn_close_tls_def Let_def split: conn_type.splits)
  show "\<not> conn_up c \<Longrightarrow> c_fd c = - 1 \<Longrightarrow> conn_close both_types k c = Inr (k, c)" for k c
    using tls.close_idle plain.close_idle
    by (auto simp: conn_close_def conn_up_def plain_up_def split: conn_type.splits)
  show "\<not> conn_up c \<Longrightarrow> conn_writev vs k c = Inr (- int EINVAL, k)" for vs k c
    using tls.writev_down plain.writev_down
    by (auto simp: conn_writev_def conn_up_def plain_up_def split: conn_type.splits)
  show "conn_up c \<Longrightarrow> k_wr k = [] \<Longrightarrow>
      conn_writev [a, b, d] k c = Inr (int (length a + length b + length d), k\<lparr>k_out := k_out k @ a @ b @ d\<rparr>)" for c k a b d
    using tls.writev_up plain.writev_up
    by (auto simp: conn_writev_def conn_up_def plain_up_def split: conn_type.splits)
qed

section \<open>Properties\<close>

text \<open>
  C24. Closing a connection, of either kind, releases its descriptor and no other, and a second close
  changes nothing; after it nothing more can be sent.
\<close>

theorem conn_close_releases:
  "\<exists>k' c'. conn_close both_types k c = Inr (k', c')
     \<and> set (k_open k') = set (k_open k) - (if c_fd c = - 1 then {} else {c_fd c})
     \<and> conn_close both_types k' c' = Inr (k', c')
     \<and> conn_writev vs k' c' = Inr (- int EINVAL, k')"
proof -
  obtain k' c' where c: "conn_close both_types k c = Inr (k', c')" using conn.close_total by blast
  from conn.close_twice[of k c] c have "conn_close both_types k' c' = Inr (k', c')" by simp
  with c conn.close_keeps_others[OF c] conn.closed_sends_nothing[OF c] show ?thesis by blast
qed

text \<open>
  \<open>tls_configure\<close> reports an error as \<open>- errno\<close>. OpenSSL does not set \<open>errno\<close> for a key that does not match
  or a file it cannot parse: the result is then 0, success, and there is no context.
\<close>

theorem tls_configure_failure_unreported:
  assumes "k_errno k = 0" "\<not> k_tls_ctx k" "sa_errno sa = None"
    and "\<not> sa_check_key sa \<or> \<not> sa_use_cert sa \<or> \<not> sa_load_ca sa"
  shows "fst (tls_configure cfg sa k) = 0 \<and> \<not> k_tls_ctx (snd (tls_configure cfg sa k))"
  using assms by (auto simp: tls_configure_def)

theorem tls_configure_failure_unreported_witness:
  "fst (tls_configure \<lparr>tls_port = 2868, tls_addr = Some ''::*'', ca_cert_file = Some ''ca.crt'',
      cert_file = Some ''server.crt'', key_file = Some ''server.key''\<rparr>
     \<lparr>sa_ctx_new = True, sa_use_cert = True, sa_use_key = True, sa_check_key = False, sa_load_ca = True, sa_errno = None\<rparr> sample_kernel) = 0"
  using tls_configure_failure_unreported[of sample_kernel
      "\<lparr>sa_ctx_new = True, sa_use_cert = True, sa_use_key = True, sa_check_key = False, sa_load_ca = True, sa_errno = None\<rparr>"]
  by (simp add: sample_kernel_def)

end
