(* ===== verification/Printf.thy ===== *)
theory Printf
  imports CString
begin

text \<open>
  \<open>snprintf\<close> and \<open>sprintf\<close> for the conversions that \<open>json.c\<close> and \<open>httpd.c\<close> use: literal
  text, \<open>%d %u %x %c %s %f\<close>, the length modifiers \<open>h l ll\<close>, a field width and a precision.

  A format is parsed into directives, and a list of directives is applied to a list of
  arguments as they arrive after the default promotions: a 32-bit \<open>int\<close>, a 64-bit \<open>long\<close>
  or \<open>long long\<close>, a \<open>double\<close>, a character, or a pointer to bytes. A directive that does not
  fit its argument is a fault, because the C standard leaves it undefined.

  A floating-point value is exact: sign, mantissa and binary exponent. \<open>%.nf\<close> prints the value
  rounded to \<open>n\<close> decimals, ties to even, as glibc does in the default rounding mode.
\<close>

section \<open>Floating-point values\<close>

datatype cfloat = Finite (cf_neg: bool) (cf_man: nat) (cf_exp: int) | Infinite bool | NotANumber bool

definition div_half_even :: "nat \<Rightarrow> nat \<Rightarrow> nat" where
  "div_half_even a b =
     (let q = a div b; r = a mod b
      in if 2 * r > b \<or> (2 * r = b \<and> odd q) then q + 1 else q)"

definition scaled :: "nat \<Rightarrow> nat \<Rightarrow> int \<Rightarrow> nat" where
  "scaled prec m e =
     (if 0 \<le> e then m * 2 ^ nat e * 10 ^ prec
      else div_half_even (m * 10 ^ prec) (2 ^ nat (- e)))"

definition pad_left :: "nat \<Rightarrow> byte \<Rightarrow> string \<Rightarrow> string" where
  "pad_left n c s = replicate (n - length s) c @ s"

definition fixed_digits :: "nat \<Rightarrow> nat \<Rightarrow> string" where
  "fixed_digits prec n =
     dec_nat (n div 10 ^ prec)
     @ (if prec = 0 then [] else CHR ''.'' # pad_left prec (CHR ''0'') (dec_nat (n mod 10 ^ prec)))"

fun fmt_double :: "nat \<Rightarrow> cfloat \<Rightarrow> string" where
  "fmt_double prec (Finite neg m e) =
     (if neg then ''-'' else []) @ fixed_digits prec (scaled prec m e)"
| "fmt_double prec (Infinite neg) = (if neg then ''-inf'' else ''inf'')"
| "fmt_double prec (NotANumber neg) = (if neg then ''-nan'' else ''nan'')"

section \<open>Directives\<close>

datatype len_mod = L_none | L_h | L_l | L_ll

datatype directive =
    Lit byte
  | Conv (d_width: nat) (d_prec: "nat option") (d_len: len_mod) (d_conv: byte)

datatype fmt_state = In_text | In_spec nat "nat option" len_mod

definition is_conv :: "byte \<Rightarrow> bool" where
  "is_conv c \<longleftrightarrow> c = CHR ''d'' \<or> c = CHR ''u'' \<or> c = CHR ''x'' \<or> c = CHR ''c''
     \<or> c = CHR ''s'' \<or> c = CHR ''f''"

fun parse_dirs :: "fmt_state \<Rightarrow> string \<Rightarrow> directive list option" where
  "parse_dirs In_text [] = Some []"
| "parse_dirs (In_spec w p l) [] = None"
| "parse_dirs In_text (c # cs) =
     (if c = CHR ''%'' then parse_dirs (In_spec 0 None L_none) cs
      else map_option (Cons (Lit c)) (parse_dirs In_text cs))"
| "parse_dirs (In_spec w p l) (c # cs) =
     (if is_conv c then map_option (Cons (Conv w p l c)) (parse_dirs In_text cs)
      else if c = CHR ''l''
        then (if l = L_none then parse_dirs (In_spec w p L_l) cs
              else if l = L_l then parse_dirs (In_spec w p L_ll) cs else None)
      else if c = CHR ''h''
        then (if l = L_none then parse_dirs (In_spec w p L_h) cs else None)
      else if l \<noteq> L_none then None
      else if c = CHR ''.''
        then (if p = None then parse_dirs (In_spec w (Some 0) L_none) cs else None)
      else if is_digit c
        then (case p of
                None \<Rightarrow> parse_dirs (In_spec (10 * w + digit_val c) None L_none) cs
              | Some q \<Rightarrow> parse_dirs (In_spec w (Some (10 * q + digit_val c)) L_none) cs)
      else None)"

section \<open>Arguments and conversion\<close>

datatype parg =
    A_int "32 word"
  | A_long "64 word"
  | A_dbl cfloat
  | A_chr byte
  | A_str bytes

text \<open>
  \<open>%s\<close> reads up to the NUL, or up to the precision if there is one. An array that ends before
  either is read past its end.
\<close>

definition str_arg :: "nat option \<Rightarrow> bytes \<Rightarrow> string res" where
  "str_arg p s =
     (case p of
        None \<Rightarrow> if terminated s then Inr (cstr s) else Inl OutOfBounds
      | Some n \<Rightarrow> if terminated s \<or> n \<le> length s then Inr (take n (cstr s)) else Inl OutOfBounds)"

fun convert :: "len_mod \<Rightarrow> nat option \<Rightarrow> byte \<Rightarrow> parg \<Rightarrow> string res" where
  "convert l p c (A_int w) =
     (if c = CHR ''d'' \<and> l = L_none then Inr (dec_int (sint w))
      else if c = CHR ''d'' \<and> l = L_h then Inr (dec_int (sint (ucast w :: 16 word)))
      else if c = CHR ''u'' \<and> l = L_none then Inr (dec_nat (unat w))
      else if c = CHR ''x'' \<and> l = L_none then Inr (hex_nat (unat w))
      else Inl BadFormat)"
| "convert l p c (A_long w) =
     (if c = CHR ''d'' \<and> (l = L_l \<or> l = L_ll) then Inr (dec_int (sint w))
      else if c = CHR ''u'' \<and> (l = L_l \<or> l = L_ll) then Inr (dec_nat (unat w))
      else Inl BadFormat)"
| "convert l p c (A_dbl x) =
     (if c = CHR ''f'' \<and> l = L_none
      then Inr (fmt_double (case p of None \<Rightarrow> 6 | Some n \<Rightarrow> n) x) else Inl BadFormat)"
| "convert l p c (A_chr x) = (if c = CHR ''c'' \<and> l = L_none then Inr [x] else Inl BadFormat)"
| "convert l p c (A_str s) = (if c = CHR ''s'' \<and> l = L_none then str_arg p s else Inl BadFormat)"

fun apply_dirs :: "directive list \<Rightarrow> parg list \<Rightarrow> string res" where
  "apply_dirs [] as = Inr []"
| "apply_dirs (Lit c # ds) as = and_then (apply_dirs ds as) (\<lambda>t. Inr (c # t))"
| "apply_dirs (Conv w p l c # ds) [] = Inl BadFormat"
| "apply_dirs (Conv w p l c # ds) (a # as) =
     and_then (convert l p c a) (\<lambda>s. and_then (apply_dirs ds as) (\<lambda>t.
       Inr (pad_left w (CHR '' '') s @ t)))"

definition c_format :: "string \<Rightarrow> parg list \<Rightarrow> string res" where
  "c_format fmt as =
     (case parse_dirs In_text fmt of None \<Rightarrow> Inl BadFormat | Some ds \<Rightarrow> apply_dirs ds as)"

text \<open>
  \<open>snprintf (buf, n, fmt, ...)\<close>: the bytes that are in the array afterwards, and the returned
  length, which is the length of the whole text even when only a part of it was stored.
  \<open>sprintf\<close> has no bound, and an array of \<open>n\<close> bytes that is too small is overrun.
\<close>

definition c_snprintf :: "nat \<Rightarrow> string \<Rightarrow> parg list \<Rightarrow> (bytes \<times> int) res" where
  "c_snprintf n fmt as =
     and_then (c_format fmt as) (\<lambda>t. Inr (take (n - 1) t @ [NUL], int (length t)))"

definition c_sprintf :: "nat \<Rightarrow> string \<Rightarrow> parg list \<Rightarrow> (bytes \<times> int) res" where
  "c_sprintf n fmt as =
     and_then (c_format fmt as) (\<lambda>t.
       if length t < n then Inr (t @ [NUL], int (length t)) else Inl OutOfBounds)"

section \<open>What a converted argument looks like\<close>

text \<open>
  The kind of an argument is what the formats are checked against: its type, a bound on the
  length of what it prints, and for text that it can stand inside a JSON string.
\<close>

definition clean_char :: "byte \<Rightarrow> bool" where
  "clean_char c \<longleftrightarrow> c \<noteq> CHR 0x22 \<and> c \<noteq> CHR 0x5C \<and> 32 \<le> (of_char c :: nat)"

definition clean :: "string \<Rightarrow> bool" where
  "clean s \<longleftrightarrow> (\<forall>c \<in> set s. clean_char c)"

definition dbl_below :: "nat \<Rightarrow> cfloat \<Rightarrow> bool" where
  "dbl_below n x = (case x of
      Finite neg m e \<Rightarrow> (if 0 \<le> e then m * 2 ^ nat e < 10 ^ n else m < 10 ^ n * 2 ^ nat (- e))
    | _ \<Rightarrow> False)"

datatype akind =
    K_int
  | K_long
  | K_dbl nat
  | K_chr
  | K_str "nat option"
  | K_quoted nat

fun has_kind :: "parg \<Rightarrow> akind \<Rightarrow> bool" where
  "has_kind (A_int w) k = (k = K_int)"
| "has_kind (A_long w) k = (k = K_long)"
| "has_kind (A_dbl x) k = (\<exists>n. k = K_dbl n \<and> dbl_below n x)"
| "has_kind (A_chr c) k = (k = K_chr \<and> clean_char c)"
| "has_kind (A_str s) k =
     (terminated s
      \<and> ((\<exists>b. k = K_str b \<and> clean (cstr s) \<and> (\<forall>n. b = Some n \<longrightarrow> length (cstr s) \<le> n))
         \<or> (\<exists>n body. k = K_quoted n \<and> cstr s = [CHR 0x22] @ body @ [CHR 0x22] \<and> clean body
              \<and> length body + 2 \<le> n)))"

end
