(* ===== verification/HttpResponse.thy ===== *)
theory HttpResponse
  imports ConnOps Printf
begin

text \<open>
  Sending an answer: \<open>http_prepare_response\<close>, \<open>http_response_200\<close> and \<open>http_show_samp_done\<close> of
  \<open>httpd.c\<close>.

  The kernel and the connection together are the \<open>wire\<close>. zlib's \<open>compress\<close> is a parameter: whether
  it answered \<open>Z_OK\<close>, and the bytes of \<open>compbuf\<close> up to the length it left in \<open>complen\<close>.
\<close>

section \<open>Texts\<close>

definition CRLF :: string where "CRLF = [CHR 0x0D, CHR 0x0A]"

definition http_200 :: string where "http_200 = ''HTTP/1.1 200 OK'' @ CRLF"
definition http_404 :: string where "http_404 = ''HTTP/1.1 404 Not Found'' @ CRLF"

definition encoding_text :: "content_encoding \<Rightarrow> string" where
  "encoding_text e = (case e of Enc_none \<Rightarrow> [] | Enc_deflate \<Rightarrow> ''Content-Encoding: deflate'' @ CRLF)"

definition http_generic :: string where
  "http_generic = ''Server: atop'' @ CRLF @ ''%s'' @ ''Content-Type: %s; charset=utf-8'' @ CRLF
     @ ''Content-Length: %d'' @ CRLF @ CRLF"

datatype content_type = Ct_html | Ct_css | Ct_javascript

definition content_type_text :: "content_type \<Rightarrow> string" where
  "content_type_text c = (case c of Ct_html \<Rightarrow> ''text/html'' | Ct_css \<Rightarrow> ''text/css''
     | Ct_javascript \<Rightarrow> ''application/javascript'')"

section \<open>Operations\<close>

type_synonym wire = "kernel \<times> connection"

definition EBADF :: nat where "EBADF = 9"

text \<open>A call on the descriptor of the connection.\<close>

definition fd_call :: "wire \<Rightarrow> int \<times> wire" where
  "fd_call w = (case w of (k, c) \<Rightarrow>
     if c_fd c = - 1 then (- 1, (k\<lparr>k_errno := EBADF\<rparr>, c))
     else let (ret, k) = k_call k in (ret, (k, c)))"

text \<open>
  \<open>TCP_NODELAY\<close>, then \<open>F_GETFL\<close>, whose result goes unchecked into \<open>F_SETFL\<close>, then
  \<open>SO_SNDTIMEO\<close>.
\<close>

definition http_prepare_response :: "wire \<Rightarrow> int \<times> wire" where
  "http_prepare_response w =
     (let (ret, w) = fd_call w
      in if ret \<noteq> 0 then (ret, w)
         else let (_, w) = fd_call w; (ret, w) = fd_call w
              in if ret \<noteq> 0 then (ret, w) else fd_call w)"

definition wire_close :: "registry \<Rightarrow> wire \<Rightarrow> wire res" where
  "wire_close reg w = conn_close reg (fst w) (snd w)"

definition wire_write :: "bytes \<Rightarrow> wire \<Rightarrow> wire res" where
  "wire_write bs w = and_then (conn_write bs (fst w) (snd w)) (\<lambda>(_, k). Inr (k, snd w))"

definition wire_writev :: "bytes list \<Rightarrow> wire \<Rightarrow> wire res" where
  "wire_writev iov w = and_then (conn_writev iov (fst w) (snd w)) (\<lambda>(_, k). Inr (k, snd w))"

text \<open>
  \<open>content\<close> has 128 bytes. \<open>len\<close> is a \<open>size_t\<close> that is passed for a \<open>%d\<close>; on the platforms the program
  runs on this prints its low 32 bits.
\<close>

definition http_response_200 ::
    "registry \<Rightarrow> wire \<Rightarrow> bytes \<Rightarrow> nat \<Rightarrow> content_encoding \<Rightarrow> content_type \<Rightarrow> wire res" where
  "http_response_200 reg w buf len encoding content_type =
     (let (ret, w) = http_prepare_response w
      in if ret \<noteq> 0 then wire_close reg w
         else and_then (c_sprintf 128 http_generic
                [A_str (encoding_text encoding @ [NUL]), A_str (content_type_text content_type @ [NUL]), A_int (of_nat len)])
                (\<lambda>(content, content_length).
              if len > length buf then Inl OutOfBounds
              else and_then (wire_writev [http_200, take (nat content_length) content, take len buf] w)
                     (wire_close reg)))"

text \<open>The answer 404, as it is written out at three places of the code.\<close>

definition http_not_found :: "wire \<Rightarrow> wire res" where
  "http_not_found w = wire_write http_404 (snd (http_prepare_response w))"

type_synonym zcompress = "bytes \<Rightarrow> bool \<times> bytes"

text \<open>
  When \<open>compress\<close> fails, the answer 404 is written, and after it the answer 200 with what is in
  \<open>compbuf\<close>.
\<close>

definition http_show_samp_done :: "registry \<Rightarrow> zcompress \<Rightarrow> output_t \<Rightarrow> wire \<Rightarrow> wire res" where
  "http_show_samp_done reg zc op w =
     and_then (ob_data op) (\<lambda>data.
       if out_encoding op = Enc_none
       then http_response_200 reg w data (length data) (out_encoding op) Ct_html
       else let (ok, compbuf) = zc data
            in and_then (if ok then Inr w else http_not_found w) (\<lambda>w.
                 http_response_200 reg w compbuf (length compbuf) Enc_deflate Ct_html))"

section \<open>What a client reads\<close>

text \<open>
  The specification: the lines up to the empty line, and the rest.
\<close>

function head_lines :: "string \<Rightarrow> string \<Rightarrow> (string list \<times> string) option" where
  "head_lines cur [] = None"
| "head_lines cur (c # s) =
     (if c = CHR 0x0D \<and> s \<noteq> [] \<and> hd s = CHR 0x0A
      then (if cur = [] then Some ([], tl s)
            else map_option (\<lambda>(ls, b). (cur # ls, b)) (head_lines [] (tl s)))
      else head_lines (cur @ [c]) s)"
  by pat_completeness auto
termination
  by (relation "measure (\<lambda>(cur, s). length s)") auto

lemma head_lines_line:
  "CHR 0x0D \<notin> set l \<Longrightarrow> head_lines cur (l @ CRLF @ s)
     = (if cur @ l = [] then Some ([], s) else map_option (\<lambda>(ls, b). ((cur @ l) # ls, b)) (head_lines [] s))"
  by (induction l arbitrary: cur) (auto simp: CRLF_def)

definition answer_head :: "content_encoding \<Rightarrow> content_type \<Rightarrow> nat \<Rightarrow> string list" where
  "answer_head enc ct len =
     [''HTTP/1.1 200 OK'', ''Server: atop''] @ (if enc = Enc_deflate then [''Content-Encoding: deflate''] else [])
     @ [''Content-Type: '' @ content_type_text ct @ ''; charset=utf-8'', ''Content-Length: '' @ dec_nat len]"

definition answer_text :: "content_encoding \<Rightarrow> content_type \<Rightarrow> bytes \<Rightarrow> bytes" where
  "answer_text enc ct body =
     http_200 @ ''Server: atop'' @ CRLF @ encoding_text enc
     @ ''Content-Type: '' @ content_type_text ct @ ''; charset=utf-8'' @ CRLF
     @ ''Content-Length: '' @ dec_nat (length body) @ CRLF @ CRLF @ body"

lemma no_CR [simp]:
  "CHR 0x0D \<notin> set (content_type_text ct)" "CHR 0x0D \<notin> set (dec_nat n)"
proof -
  show "CHR 0x0D \<notin> set (content_type_text ct)" by (cases ct) (simp_all add: content_type_text_def)
  have "\<not> is_digit (CHR 0x0D)" by (simp add: is_digit_def)
  then show "CHR 0x0D \<notin> set (dec_nat n)" using dec_nat_digits[of n] by (auto simp: list_all_iff)
qed

lemma head_lines_answer: "head_lines [] (answer_text enc ct body) = Some (answer_head enc ct (length body), body)"
proof -
  have 1: "''HTTP/1.1 200 OK'' @ CRLF @ s = http_200 @ s" for s by (simp add: http_200_def)
  have rest: "head_lines [] (''Content-Type: '' @ content_type_text ct @ ''; charset=utf-8'' @ CRLF
      @ ''Content-Length: '' @ dec_nat (length body) @ CRLF @ CRLF @ body)
    = Some ([''Content-Type: '' @ content_type_text ct @ ''; charset=utf-8'', ''Content-Length: '' @ dec_nat (length body)], body)"
    using head_lines_line[of "''Content-Type: '' @ content_type_text ct @ ''; charset=utf-8''" "[]"]
      head_lines_line[of "''Content-Length: '' @ dec_nat (length body)" "[]"] head_lines_line[of "[]" "[]" body]
    by simp
  show ?thesis
    using head_lines_line[of "''HTTP/1.1 200 OK''" "[]"] head_lines_line[of "''Server: atop''" "[]"]
      head_lines_line[of "''Content-Encoding: deflate''" "[]"] rest
    by (cases enc) (simp_all add: answer_text_def answer_head_def encoding_text_def 1[symmetric])
qed

section \<open>The header fits its buffer\<close>

lemma generic_dirs:
  "parse_dirs In_text http_generic = Some (map Lit (''Server: atop'' @ CRLF) @ [Conv 0 None L_none (CHR ''s'')]
     @ map Lit ''Content-Type: '' @ [Conv 0 None L_none (CHR ''s'')] @ map Lit (''; charset=utf-8'' @ CRLF @ ''Content-Length: '')
     @ [Conv 0 None L_none (CHR ''d'')] @ map Lit (CRLF @ CRLF))"
  by code_simp

lemma apply_lits: "apply_dirs (map Lit s @ ds) as = and_then (apply_dirs ds as) (\<lambda>t. Inr (s @ t))"
proof (induction s)
  case Nil
  then show ?case by (cases "apply_dirs ds as") simp_all
next
  case (Cons c s)
  then show ?case by (cases "apply_dirs ds as") simp_all
qed

lemma str_arg_text: "NUL \<notin> set s \<Longrightarrow> convert L_none None (CHR ''s'') (A_str (s @ [NUL])) = Inr s"
  using cstr_append_NUL[of s "[]"] by (simp add: str_arg_def)

lemma enc_NUL [simp]: "NUL \<notin> set (encoding_text e)" "NUL \<notin> set (content_type_text c)"
  by (cases e; simp add: encoding_text_def CRLF_def) (cases c; simp add: content_type_text_def)

definition header_text :: "content_encoding \<Rightarrow> content_type \<Rightarrow> nat \<Rightarrow> string" where
  "header_text enc ct len = ''Server: atop'' @ CRLF @ encoding_text enc
     @ ''Content-Type: '' @ content_type_text ct @ ''; charset=utf-8'' @ CRLF
     @ ''Content-Length: '' @ dec_nat len @ CRLF @ CRLF"

lemma header_format:
  assumes "len < 2 ^ 31"
  shows "c_format http_generic [A_str (encoding_text enc @ [NUL]), A_str (content_type_text ct @ [NUL]), A_int (of_nat len)]
    = Inr (header_text enc ct len)"
proof -
  have "sint (of_nat len :: 32 word) = int len"
    using assms by (simp add: signed_of_nat signed_take_bit_int_eq_self)
  then have "convert L_none None (CHR ''d'') (A_int (of_nat len)) = Inr (dec_nat len)" by (simp add: dec_int_def)
  then show ?thesis
    unfolding c_format_def generic_dirs option.case apply_lits
    by (simp add: str_arg_text apply_lits apply_lits[of _ "[]", simplified] pad_left_def header_text_def del: convert.simps)
qed

lemma dec_nat_length31: "len < 2 ^ 31 \<Longrightarrow> length (dec_nat len) \<le> 10"
  using length_dec_nat[of 10 len] by simp

lemma header_fits: "len < 2 ^ 31 \<Longrightarrow> length (header_text enc ct len) < 128"
  using dec_nat_length31[of len]
  by (cases enc; cases ct) (simp_all add: header_text_def encoding_text_def content_type_text_def CRLF_def)

lemma header_sprintf:
  "len < 2 ^ 31 \<Longrightarrow>
   c_sprintf 128 http_generic [A_str (encoding_text enc @ [NUL]), A_str (content_type_text ct @ [NUL]), A_int (of_nat len)]
     = Inr (header_text enc ct len @ [NUL], int (length (header_text enc ct len)))"
  using header_fits[of len enc ct] by (simp add: c_sprintf_def header_format)

section \<open>What an operation does to the descriptors\<close>

text \<open>
  After an operation on a connection, the connection is either as it was, or closed, and then
  its descriptor and no other is released.
\<close>

definition released :: "wire \<Rightarrow> wire \<Rightarrow> bool" where
  "released w w' \<longleftrightarrow> \<not> conn_up (snd w') \<and> c_fd (snd w') = - 1
     \<and> set (k_open (fst w')) = set (k_open (fst w)) - (if c_fd (snd w) = - 1 then {} else {c_fd (snd w)})"

definition untouched :: "wire \<Rightarrow> wire \<Rightarrow> bool" where
  "untouched w w' \<longleftrightarrow> snd w' = snd w \<and> k_open (fst w') = k_open (fst w)"

definition settled :: "wire \<Rightarrow> wire \<Rightarrow> bool" where
  "settled w w' \<longleftrightarrow> untouched w w' \<or> released w w'"

lemma untouched_refl [simp, intro]: "untouched w w"
  by (simp add: untouched_def)

lemma untouched_trans: "untouched w w' \<Longrightarrow> untouched w' w'' \<Longrightarrow> untouched w w''"
  by (simp add: untouched_def)

lemma released_after: "untouched w w' \<Longrightarrow> released w' w'' \<Longrightarrow> released w w''"
  by (simp add: untouched_def released_def)

lemma settled_after: "untouched w w' \<Longrightarrow> settled w' w'' \<Longrightarrow> settled w w''"
  by (auto simp: settled_def intro: untouched_trans released_after)

text \<open>
  The contract of everything that answers a request: whatever it does, closing the connection afterwards
  releases it.
\<close>

locale settling =
  fixes run :: "wire \<Rightarrow> wire res"
  assumes settles: "run w = Inr w' \<Longrightarrow> settled w w'"
begin

lemma then_close:
  assumes "run w = Inr w'"
  obtains w'' where "wire_close both_types w' = Inr w''" "released w w''"
proof -
  obtain k' c' where w': "w' = (k', c')" by (cases w')
  obtain k'' c'' where c: "conn_close both_types k' c' = Inr (k'', c'')" using conn.close_total by blast
  from settles[OF assms] have "released w (k'', c'')"
    unfolding settled_def
  proof
    assume "untouched w w'"
    with conn.close_down[OF c] conn.close_keeps_others[OF c] show ?thesis
      by (auto simp: released_def untouched_def w')
  next
    assume r: "released w w'"
    with conn.close_idle[of c' k'] c show ?thesis by (simp add: released_def w')
  qed
  with c that[of "(k'', c'')"] show thesis by (simp add: wire_close_def w')
qed

lemma closed_after:
  "and_then (run w) (wire_close both_types) = Inr w'' \<Longrightarrow> released w w''"
  using then_close by (fastforce simp: and_then_Inr_iff)

end

lemma wire_close_releases: "\<exists>w'. wire_close both_types w = Inr w' \<and> released w w'"
proof -
  obtain k c where w: "w = (k, c)" by (cases w)
  obtain k' c' where c: "conn_close both_types k c = Inr (k', c')" using conn.close_total by blast
  with conn.close_down[OF c] conn.close_keeps_others[OF c] show ?thesis
    by (auto simp: wire_close_def w released_def)
qed

lemma k_call_open [simp]: "k_open (snd (k_call k)) = k_open k"
  by (simp add: k_call_def split: list.splits option.splits)

lemma k_send_open [simp]: "k_open (snd (k_send bs k)) = k_open k"
  by (simp add: k_send_def split: list.splits wr_answer.splits)

lemma fd_call_untouched: "untouched w (snd (fd_call w))"
proof -
  obtain k c where w: "w = (k, c)" by (cases w)
  obtain r k' where "k_call k = (r, k')" by (cases "k_call k")
  with k_call_open[of k] show ?thesis by (simp add: w fd_call_def untouched_def)
qed

lemma prepare_untouched: "untouched w (snd (http_prepare_response w))"
proof -
  obtain r1 w1 where 1: "fd_call w = (r1, w1)" by (cases "fd_call w")
  obtain r2 w2 where 2: "fd_call w1 = (r2, w2)" by (cases "fd_call w1")
  obtain r3 w3 where 3: "fd_call w2 = (r3, w3)" by (cases "fd_call w2")
  obtain r4 w4 where 4: "fd_call w3 = (r4, w4)" by (cases "fd_call w3")
  note u = fd_call_untouched[of w] fd_call_untouched[of w1] fd_call_untouched[of w2] fd_call_untouched[of w3]
  show ?thesis
    unfolding http_prepare_response_def using u by (auto simp: 1 2 3 4 Let_def intro: untouched_trans)
qed

lemma fd_call_out: "k_out (fst (snd (fd_call w))) = k_out (fst w)"
  by (cases w) (auto simp: fd_call_def k_call_def split: list.splits option.splits prod.splits)

lemma prepare_out: "k_out (fst (snd (http_prepare_response w))) = k_out (fst w)"
proof -
  obtain r1 w1 where 1: "fd_call w = (r1, w1)" by (cases "fd_call w")
  obtain r2 w2 where 2: "fd_call w1 = (r2, w2)" by (cases "fd_call w1")
  obtain r3 w3 where 3: "fd_call w2 = (r3, w3)" by (cases "fd_call w2")
  obtain r4 w4 where 4: "fd_call w3 = (r4, w4)" by (cases "fd_call w3")
  note u = fd_call_out[of w] fd_call_out[of w1] fd_call_out[of w2] fd_call_out[of w3]
  show ?thesis unfolding http_prepare_response_def using u by (auto simp: 1 2 3 4 Let_def)
qed

lemma write_untouched: "\<exists>w'. wire_write bs w = Inr w' \<and> untouched w w'"
proof -
  obtain k c where w: "w = (k, c)" by (cases w)
  obtain r k' where "k_send bs k = (r, k')" by (cases "k_send bs k")
  with k_send_open[of bs k] show ?thesis
    by (simp add: wire_write_def w conn_write_def conn_socket_write_def conn_write_tls_def untouched_def split: conn_type.split)
qed

lemma k_send_prefix: "\<exists>t. prefix t bs \<and> k_out (snd (k_send bs k)) = k_out k @ t"
proof -
  have "prefix (take n bs) bs" for n by (rule take_is_prefix)
  then show ?thesis by (auto simp: k_send_def split: list.splits wr_answer.splits)
qed

lemma writev_prefix:
  "\<exists>w' t. wire_writev [a, b, d] w = Inr w' \<and> untouched w w' \<and> prefix t (a @ b @ d) \<and> k_out (fst w') = k_out (fst w) @ t"
proof -
  obtain k c where w: "w = (k, c)" by (cases w)
  obtain r k' where s: "k_send (a @ b @ d) k = (r, k')" by (cases "k_send (a @ b @ d) k")
  obtain t where "prefix t (a @ b @ d)" "k_out k' = k_out k @ t" using k_send_prefix[of "a @ b @ d" k] s by auto
  moreover have "prefix [] (a @ b @ d)" "k_out k = k_out k @ []" by simp_all
  moreover have "k_open k' = k_open k" using k_send_open[of "a @ b @ d" k] s by simp
  ultimately show ?thesis
    unfolding wire_writev_def w conn_writev_def conn_socket_writev_def conn_writev_tls_def untouched_def
    by (cases "c_type c"; cases "c_fd c = - 1"; cases "c_ssl c") (auto simp: copy_iov_all s Let_def)
qed

lemma writev_untouched: "\<exists>w'. wire_writev [a, b, d] w = Inr w' \<and> untouched w w'"
  using writev_prefix by metis

lemma not_found_untouched: "\<exists>w'. http_not_found w = Inr w' \<and> untouched w w'"
  using prepare_untouched[of w] write_untouched[of http_404 "snd (http_prepare_response w)"]
  by (auto simp: http_not_found_def intro: untouched_trans)

lemma response_released:
  assumes "length body < 2 ^ 31"
  shows "\<exists>w'. http_response_200 both_types w body (length body) enc ct = Inr w' \<and> released w w'"
proof -
  obtain r w1 where p: "http_prepare_response w = (r, w1)" by (cases "http_prepare_response w")
  with prepare_untouched[of w] have u: "untouched w w1" by simp
  show ?thesis
  proof (cases "r = 0")
    case False
    with p wire_close_releases[of w1] u show ?thesis by (auto simp: http_response_200_def intro: released_after)
  next
    case True
    obtain w2 where w2: "wire_writev [http_200, header_text enc ct (length body), body] w1 = Inr w2" "untouched w1 w2"
      using writev_untouched by blast
    from True p w2 wire_close_releases[of w2] u show ?thesis
      by (auto simp: http_response_200_def header_sprintf[OF assms] intro: released_after[OF untouched_trans])
  qed
qed

lemma response_total:
  "length body < 2 ^ 31 \<Longrightarrow> \<exists>w'. http_response_200 both_types w body (length body) enc ct = Inr w'"
  using response_released by blast

text \<open>Whatever is sent, and of whatever length: when the response does not fault, the connection is closed.\<close>

lemma response_settles: "http_response_200 both_types w body len enc ct = Inr w' \<Longrightarrow> settled w w'"
proof -
  assume run: "http_response_200 both_types w body len enc ct = Inr w'"
  obtain r w1 where p: "http_prepare_response w = (r, w1)" by (cases "http_prepare_response w")
  with prepare_untouched[of w] have u: "untouched w w1" by simp
  have cl: "wire_close both_types w2 = Inr w' \<Longrightarrow> untouched w w2 \<Longrightarrow> settled w w'" for w2
    using wire_close_releases[of w2] by (auto simp: settled_def intro: released_after)
  show ?thesis
  proof (cases "r = 0")
    case False
    with run p u cl show ?thesis by (simp add: http_response_200_def)
  next
    case True
    with run p obtain b d w2 where "wire_writev [http_200, b, d] w1 = Inr w2" "wire_close both_types w2 = Inr w'"
      by (auto simp: http_response_200_def and_then_Inr_iff split: if_splits)
    moreover from this(1) writev_untouched[of http_200 b d w1] have "untouched w1 w2" by auto
    ultimately show ?thesis using cl untouched_trans[OF u] by blast
  qed
qed

interpretation response: settling "\<lambda>w. http_response_200 both_types w body len enc ct"
  by unfold_locales (rule response_settles)

interpretation not_found: settling http_not_found
proof
  show "http_not_found w = Inr w' \<Longrightarrow> settled w w'" for w w'
    using not_found_untouched[of w] by (auto simp: settled_def)
qed

lemma show_samp_done_settles: "http_show_samp_done both_types zc op w = Inr w' \<Longrightarrow> settled w w'"
proof -
  assume run: "http_show_samp_done both_types zc op w = Inr w'"
  then obtain data where data: "ob_data op = Inr data" by (auto simp: http_show_samp_done_def and_then_Inr_iff)
  show ?thesis
  proof (cases "out_encoding op = Enc_none")
    case True
    with run data show ?thesis by (auto simp: http_show_samp_done_def intro: response_settles)
  next
    case False
    obtain ok z where z: "zc data = (ok, z)" by (cases "zc data")
    with run data False obtain w1 where w1: "(if ok then Inr w else http_not_found w) = Inr w1"
        "http_response_200 both_types w1 z (length z) Enc_deflate Ct_html = Inr w'"
      by (auto simp: http_show_samp_done_def and_then_Inr_iff)
    moreover from w1(1) not_found_untouched[of w] have "untouched w w1" by (auto split: if_splits)
    ultimately show ?thesis using response_settles settled_after by blast
  qed
qed

interpretation samp_done: settling "http_show_samp_done both_types zc op"
  by unfold_locales (rule show_samp_done_settles)

section \<open>A kernel that refuses nothing\<close>

definition willing :: "wire \<Rightarrow> bool" where
  "willing w \<longleftrightarrow> k_ctl (fst w) = [] \<and> k_wr (fst w) = [] \<and> conn_up (snd w) \<and> c_fd (snd w) \<noteq> - 1"

lemma prepare_willing: "willing w \<Longrightarrow> http_prepare_response w = (0, w)"
  by (cases w) (simp add: willing_def http_prepare_response_def fd_call_def k_call_def)

lemma answer_text_header: "answer_text enc ct body = http_200 @ header_text enc ct (length body) @ body"
  by (simp add: answer_text_def header_text_def)

lemma response_willing:
  assumes "willing w" "length body < 2 ^ 31"
  shows "http_response_200 both_types w body (length body) enc ct
    = wire_close both_types ((fst w)\<lparr>k_out := k_out (fst w) @ answer_text enc ct body\<rparr>, snd w)"
proof -
  obtain k c where w: "w = (k, c)" by (cases w)
  from assms(1) have "conn_up c" "k_wr k = []" by (simp_all add: willing_def w)
  from conn.writev_up[OF this] show ?thesis
    using prepare_willing[OF assms(1)]
    by (simp add: http_response_200_def header_sprintf[OF assms(2)] wire_writev_def w answer_text_header)
qed

lemma not_found_willing:
  "willing w \<Longrightarrow> http_not_found w = Inr ((fst w)\<lparr>k_out := k_out (fst w) @ http_404\<rparr>, snd w)"
  by (cases w) (auto simp: http_not_found_def prepare_willing wire_write_def conn_write_def conn_socket_write_def
      conn_write_tls_def willing_def conn_up_def k_send_def split: conn_type.splits)

lemma willing_out: "willing ((fst w)\<lparr>k_out := t\<rparr>, snd w) = willing w"
  by (simp add: willing_def)

lemma close_out: "wire_close both_types w = Inr w' \<Longrightarrow> k_out (fst w') = k_out (fst w)"
  by (cases w'; cases w) (simp add: wire_close_def conn.close_keeps_out)

text \<open>
  The answer \<open>t\<close> to the request on \<open>w\<close>: it is sent, and the connection is released.
\<close>

definition answered :: "wire \<Rightarrow> bytes \<Rightarrow> wire \<Rightarrow> bool" where
  "answered w t w' \<longleftrightarrow> k_out (fst w') = k_out (fst w) @ t \<and> released w w'"

lemma close_answered:
  assumes "w1 = ((fst w)\<lparr>k_out := k_out (fst w) @ t\<rparr>, snd w)"
  shows "\<exists>w'. wire_close both_types w1 = Inr w' \<and> answered w t w'"
  using wire_close_releases[of w1] close_out[of w1] assms by (fastforce simp: answered_def released_def)

lemma response_answered:
  assumes "willing w" "length body < 2 ^ 31"
  shows "\<exists>w'. http_response_200 both_types w body (length body) enc ct = Inr w' \<and> answered w (answer_text enc ct body) w'"
  using response_willing[OF assms] close_answered by metis

section \<open>Properties\<close>

text \<open>
  C12. \<open>http_response_200\<close> sends one well-formed HTTP answer: the status line, the server, the encoding
  when there is one, the type, and a Content-Length that is the length of what comes after the empty line,
  which is exactly the body. Then the connection is closed and its descriptor is released.
\<close>

theorem http_response_200_wellformed:
  assumes "willing w" "length body < 2 ^ 31"
  shows "\<exists>w' t. http_response_200 both_types w body (length body) enc ct = Inr w'
    \<and> k_out (fst w') = k_out (fst w) @ t
    \<and> head_lines [] t = Some (answer_head enc ct (length body), body) \<and> released w w'"
  using response_answered[OF assms] head_lines_answer by (fastforce simp: answered_def)

definition sample_conn :: connection where
  "sample_conn = \<lparr>c_type = CT_Socket, c_fd = 4, c_port = - 1, c_is_local = 0, c_bindaddr = None, c_ssl = False\<rparr>"

definition sample_wire :: "int list \<Rightarrow> in_event list \<Rightarrow> wr_answer list \<Rightarrow> wire" where
  "sample_wire fds es wrs = (sample_kernel\<lparr>k_open := fds, k_in := es, k_wr := wrs\<rparr>, sample_conn)"

lemma sample_wire_sel [simp]:
  "k_open (fst (sample_wire fds es wrs)) = fds" "k_out (fst (sample_wire fds es wrs)) = []"
  "c_fd (snd (sample_wire fds es wrs)) = 4" "k_wr (fst (sample_wire fds es wrs)) = wrs"
  "k_in (fst (sample_wire fds es wrs)) = es" "k_ctl (fst (sample_wire fds es wrs)) = []"
  by (simp_all add: sample_wire_def sample_kernel_def sample_conn_def)

lemma sample_willing [simp]: "willing (sample_wire fds es [])"
  by (simp add: willing_def) (simp add: sample_wire_def sample_conn_def conn_up_def)

theorem http_response_200_wellformed_witness:
  "\<exists>w' t. http_response_200 both_types (sample_wire [0, 1, 2, 4] [] []) ''pong'' 4 Enc_none Ct_html = Inr w'
    \<and> k_out (fst w') = t
    \<and> head_lines [] t = Some ([''HTTP/1.1 200 OK'', ''Server: atop'', ''Content-Type: text/html; charset=utf-8'',
        ''Content-Length: 4''], ''pong'')
    \<and> set (k_open (fst w')) = {0, 1, 2}"
proof -
  have h: "answer_head Enc_none Ct_html 4 = [''HTTP/1.1 200 OK'', ''Server: atop'', ''Content-Type: text/html; charset=utf-8'',
        ''Content-Length: 4'']" by code_simp
  have fds: "{0 :: int, 1, 2, 4} - {4} = {0, 1, 2}" by auto
  have len: "length ''pong'' = 4" by simp
  show ?thesis
    using http_response_200_wellformed[of "sample_wire [0, 1, 2, 4] [] []" "''pong''" Enc_none Ct_html, unfolded len h] fds
    by (auto simp: released_def)
qed

text \<open>
  C15. Whatever \<open>setsockopt\<close>, \<open>fcntl\<close> and \<open>writev\<close> answer: \<open>http_response_200\<close> closes the connection, and what was
  sent is a beginning of the right answer.
\<close>

theorem http_response_200_closes:
  assumes "length body < 2 ^ 31"
  shows "\<exists>w' t. http_response_200 both_types w body (length body) enc ct = Inr w' \<and> released w w'
    \<and> prefix t (answer_text enc ct body) \<and> k_out (fst w') = k_out (fst w) @ t"
proof -
  obtain r w1 where p: "http_prepare_response w = (r, w1)" by (cases "http_prepare_response w")
  with prepare_untouched[of w] prepare_out[of w] have u: "untouched w w1" "k_out (fst w1) = k_out (fst w)" by simp_all
  show ?thesis
  proof (cases "r = 0")
    case False
    from wire_close_releases[of w1] obtain w' where "wire_close both_types w1 = Inr w'" "released w1 w'" by blast
    with p False u close_out[of w1 w'] show ?thesis
      by (intro exI[of _ w'] exI[of _ "[]"]) (auto simp: http_response_200_def intro: released_after)
  next
    case True
    obtain w2 t where w2: "wire_writev [http_200, header_text enc ct (length body), body] w1 = Inr w2" "untouched w1 w2"
      and t: "prefix t (answer_text enc ct body)" "k_out (fst w2) = k_out (fst w1) @ t"
      using writev_prefix unfolding answer_text_header by blast
    from wire_close_releases[of w2] obtain w' where "wire_close both_types w2 = Inr w'" "released w2 w'" by blast
    with True p w2 t u close_out[of w2 w'] show ?thesis
      by (intro exI[of _ w'] exI[of _ t])
        (auto simp: http_response_200_def header_sprintf[OF assms] intro: released_after[OF untouched_trans])
  qed
qed

theorem http_response_200_closes_witness:
  "\<exists>w' t. http_response_200 both_types (sample_wire [4] [] [Wr_n 9]) ''pong'' 4 Enc_none Ct_html = Inr w'
    \<and> k_open (fst w') = [] \<and> prefix t (answer_text Enc_none Ct_html ''pong'') \<and> k_out (fst w') = t"
proof -
  have len: "length ''pong'' = 4" by simp
  show ?thesis
    using http_response_200_closes[of "''pong''" "sample_wire [4] [] [Wr_n 9]" Enc_none Ct_html, unfolded len]
    by (auto simp: released_def)
qed

text \<open>
  C17. The answer with a sample: without encoding the bytes of the output buffer, with deflate the bytes
  that \<open>compress\<close> made of them.
\<close>

theorem http_show_samp_done_sends:
  assumes "willing w" "ob_data op = Inr data" "length data < 2 ^ 31" "zc data = (True, z)" "length z < 2 ^ 31"
  shows "\<exists>w'. http_show_samp_done both_types zc op w = Inr w'
    \<and> answered w (answer_text (out_encoding op) Ct_html (if out_encoding op = Enc_none then data else z)) w'"
  using assms response_answered[OF assms(1,3)] response_answered[OF assms(1,5)]
  by (cases "out_encoding op") (auto simp: http_show_samp_done_def)

theorem http_show_samp_done_sends_witness:
  "\<exists>w'. http_show_samp_done both_types (\<lambda>bs. (True, rev bs))
       (empty_output\<lparr>ob_buf := Some (map Some ''ab''), ob_offset := 2, out_encoding := Enc_deflate\<rparr>)
       (sample_wire [4] [] []) = Inr w'
    \<and> answered (sample_wire [4] [] []) (answer_text Enc_deflate Ct_html ''ba'') w'"
  using http_show_samp_done_sends[of "(sample_wire [4] [] [])"
      "empty_output\<lparr>ob_buf := Some (map Some ''ab''), ob_offset := 2, out_encoding := Enc_deflate\<rparr>" "''ab''"
      "\<lambda>bs. (True, rev bs)" "''ba''"]
  by (simp add: ob_data_def)

text \<open>
  C35. When \<open>compress\<close> fails (it does when the data does not get smaller), the client gets two answers in
  one stream: 404, without a header or an empty line, and then 200 with what is in the buffer.
\<close>

theorem http_show_samp_done_two_answers:
  assumes "willing w" "ob_data op = Inr data" "out_encoding op = Enc_deflate" "zc data = (False, z)" "length z < 2 ^ 31"
  shows "\<exists>w'. http_show_samp_done both_types zc op w = Inr w'
    \<and> answered w (http_404 @ answer_text Enc_deflate Ct_html z) w'"
proof -
  let ?w1 = "((fst w)\<lparr>k_out := k_out (fst w) @ http_404\<rparr>, snd w)"
  have "willing ?w1" using assms(1) by (simp add: willing_out)
  from response_answered[OF this assms(5)] obtain w' where
    "http_response_200 both_types ?w1 z (length z) Enc_deflate Ct_html = Inr w'"
    "answered ?w1 (answer_text Enc_deflate Ct_html z) w'" by blast
  with assms show ?thesis
    by (auto simp: http_show_samp_done_def not_found_willing answered_def released_def)
qed

theorem http_show_samp_done_two_answers_witness:
  "\<exists>w'. http_show_samp_done both_types (\<lambda>bs. (False, bs))
       (empty_output\<lparr>ob_buf := Some (map Some ''ab''), ob_offset := 2, out_encoding := Enc_deflate\<rparr>)
       (sample_wire [4] [] []) = Inr w'
    \<and> k_out (fst w') = http_404 @ answer_text Enc_deflate Ct_html ''ab''"
  using http_show_samp_done_two_answers[of "(sample_wire [4] [] [])"
      "empty_output\<lparr>ob_buf := Some (map Some ''ab''), ob_offset := 2, out_encoding := Enc_deflate\<rparr>" "''ab''"
      "\<lambda>bs. (False, bs)" "''ab''"]
  by (fastforce simp: ob_data_def answered_def)

end
