(* ===== verification/Qsort.thy ===== *)
theory Qsort
  imports Prelude "HOL-Library.Multiset"
begin

text \<open>
  The C library's \<open>qsort\<close>, as far as the code relies on it. \<open>cache.c\<close> calls it with two
  comparison functions that return 1 for "greater" and 0 otherwise, never a negative value.
  The C standard asks for a consistent three-way comparison, so what such a call does is up to
  the C library. The model takes the merge sort that glibc uses (\<open>msort_with_tmp\<close>): it halves the
  array, sorts the halves and merges them, taking from the left half whenever the comparison
  is not positive. A sort that only asks "greater than?" is correct with these functions.

  The interface the callers use is the locale \<open>sorts_by\<close>: a permutation, ordered by a key.
  \<open>stable_sorts_by\<close> adds that equal keys keep their order, which glibc's merge sort gives and
  the C standard does not promise.
\<close>

section \<open>The merge sort of glibc\<close>

fun qmerge :: "('a \<Rightarrow> 'a \<Rightarrow> int) \<Rightarrow> 'a list \<Rightarrow> 'a list \<Rightarrow> 'a list" where
  "qmerge cmp [] ys = ys"
| "qmerge cmp (x # xs) [] = x # xs"
| "qmerge cmp (x # xs) (y # ys) =
     (if cmp x y \<le> 0 then x # qmerge cmp xs (y # ys) else y # qmerge cmp (x # xs) ys)"

fun qsort :: "('a \<Rightarrow> 'a \<Rightarrow> int) \<Rightarrow> 'a list \<Rightarrow> 'a list" where
  "qsort cmp xs =
     (if length xs \<le> 1 then xs
      else let n1 = length xs div 2
           in qmerge cmp (qsort cmp (take n1 xs)) (qsort cmp (drop n1 xs)))"

declare qsort.simps [simp del]

lemma mset_qmerge: "mset (qmerge cmp xs ys) = mset xs + mset ys"
  by (induction cmp xs ys rule: qmerge.induct) auto

lemma set_qmerge: "set (qmerge cmp xs ys) = set xs \<union> set ys"
  by (metis mset_qmerge set_mset_mset set_mset_union)

lemma mset_qsort: "mset (qsort cmp xs) = mset xs"
proof (induction cmp xs rule: qsort.induct)
  case (1 cmp xs)
  show ?case
  proof (cases "length xs \<le> 1")
    case True
    then show ?thesis by (subst qsort.simps) simp
  next
    case False
    let ?n = "length xs div 2"
    from False have "mset (qsort cmp xs) = mset (qsort cmp (take ?n xs)) + mset (qsort cmp (drop ?n xs))"
      by (subst qsort.simps) (simp add: mset_qmerge Let_def)
    also have "\<dots> = mset (take ?n xs) + mset (drop ?n xs)"
      using 1 False by simp
    also have "\<dots> = mset xs"
      by (metis append_take_drop_id mset_append)
    finally show ?thesis .
  qed
qed

text \<open>A comparison that answers 1 exactly when the first key is greater.\<close>

definition greater_cmp :: "('a \<Rightarrow> 'k::linorder) \<Rightarrow> 'a \<Rightarrow> 'a \<Rightarrow> int" where
  "greater_cmp key x y = (if key x > key y then 1 else 0)"

lemma sorted_qmerge:
  fixes key :: "'a \<Rightarrow> 'k::linorder"
  assumes "sorted (map key xs)" "sorted (map key ys)"
  shows "sorted (map key (qmerge (greater_cmp key) xs ys))"
  using assms
proof (induction "greater_cmp key" xs ys rule: qmerge.induct)
  case (3 x xs y ys)
  then show ?case
    by (cases "key x \<le> key y") (auto simp: set_qmerge greater_cmp_def)
qed auto

lemma filter_qmerge:
  fixes key :: "'a \<Rightarrow> 'k::linorder"
  assumes "sorted (map key xs)" "sorted (map key ys)"
  shows "filter (\<lambda>z. key z = k) (qmerge (greater_cmp key) xs ys)
       = filter (\<lambda>z. key z = k) xs @ filter (\<lambda>z. key z = k) ys"
  using assms
proof (induction "greater_cmp key" xs ys rule: qmerge.induct)
  case (3 x xs y ys)
  show ?case
  proof (cases "key x \<le> key y")
    case True
    with 3 have IH: "filter (\<lambda>z. key z = k) (qmerge (greater_cmp key) xs (y # ys))
        = filter (\<lambda>z. key z = k) xs @ filter (\<lambda>z. key z = k) (y # ys)"
      by (simp add: greater_cmp_def)
    from True have "qmerge (greater_cmp key) (x # xs) (y # ys) = x # qmerge (greater_cmp key) xs (y # ys)"
      by (auto simp: greater_cmp_def)
    then show ?thesis by (simp only: filter.simps IH) simp
  next
    case False
    with 3 have IH: "filter (\<lambda>z. key z = k) (qmerge (greater_cmp key) (x # xs) ys)
        = filter (\<lambda>z. key z = k) (x # xs) @ filter (\<lambda>z. key z = k) ys"
      by (simp add: greater_cmp_def)
    from False 3(3) have "filter (\<lambda>z. key z = key y) (x # xs) = []"
      by (auto simp: filter_empty_conv)
    with False IH show ?thesis by (auto simp: greater_cmp_def)
  qed
qed auto

lemma qsort_sorted_stable:
  fixes key :: "'a \<Rightarrow> 'k::linorder"
  shows "sorted (map key (qsort (greater_cmp key) xs))
    \<and> (\<forall>k. filter (\<lambda>z. key z = k) (qsort (greater_cmp key) xs) = filter (\<lambda>z. key z = k) xs)"
proof (induction "greater_cmp key" xs rule: qsort.induct)
  case (1 xs)
  show ?case
  proof (cases "length xs \<le> 1")
    case True
    then have "sorted (map key xs)" by (cases xs) auto
    with True show ?thesis by (subst (1 2) qsort.simps) simp
  next
    case False
    let ?n = "length xs div 2"
    let ?l = "qsort (greater_cmp key) (take ?n xs)"
    let ?r = "qsort (greater_cmp key) (drop ?n xs)"
    have eq: "qsort (greater_cmp key) xs = qmerge (greater_cmp key) ?l ?r"
      using False by (subst qsort.simps) (simp add: Let_def)
    have l: "sorted (map key ?l)" "\<And>k. filter (\<lambda>z. key z = k) ?l = filter (\<lambda>z. key z = k) (take ?n xs)"
      and r: "sorted (map key ?r)" "\<And>k. filter (\<lambda>z. key z = k) ?r = filter (\<lambda>z. key z = k) (drop ?n xs)"
      using 1 False by auto
    have "\<And>k. filter (\<lambda>z. key z = k) (take ?n xs) @ filter (\<lambda>z. key z = k) (drop ?n xs)
        = filter (\<lambda>z. key z = k) xs"
      by (metis append_take_drop_id filter_append)
    with l r show ?thesis
      by (simp add: eq sorted_qmerge filter_qmerge)
  qed
qed

section \<open>What the callers rely on\<close>

locale sorts_by =
  fixes srt :: "'a list \<Rightarrow> 'a list"
    and key :: "'a \<Rightarrow> int"
  assumes mset_srt: "mset (srt xs) = mset xs"
    and sorted_srt: "sorted (map key (srt xs))"
begin

lemma length_srt [simp]: "length (srt xs) = length xs"
  by (metis mset_srt size_mset)

lemma set_srt [simp]: "set (srt xs) = set xs"
  by (metis mset_srt set_mset_mset)

lemma srt_eq_Nil_iff [simp]: "srt xs = [] \<longleftrightarrow> xs = []"
  by (metis length_0_conv length_srt)

lemma distinct_map_srt: "distinct (map f (srt xs)) \<longleftrightarrow> distinct (map f xs)"
  by (metis mset_srt mset_map mset_eq_imp_distinct_iff)

lemma last_srt_max:
  assumes "x \<in> set xs"
  shows "key x \<le> key (last (srt xs))"
proof -
  from assms obtain i where i: "i < length (srt xs)" "srt xs ! i = x"
    by (metis in_set_conv_nth set_srt)
  then have "key (srt xs ! i) \<le> key (srt xs ! (length (srt xs) - 1))"
    using sorted_nth_mono[OF sorted_srt[of xs], of i "length (srt xs) - 1"] by auto
  moreover from i have "srt xs \<noteq> []" by auto
  ultimately show ?thesis using i by (simp add: last_conv_nth)
qed

end

locale stable_sorts_by = sorts_by +
  assumes stable_srt: "filter (\<lambda>z. key z = k) (srt xs) = filter (\<lambda>z. key z = k) xs"
begin

text \<open>A stable sort is determined by its input: it is the library's \<open>sort_key\<close>.\<close>

lemma srt_eq_sort_key: "srt xs = sort_key key xs"
proof (rule properties_for_sort_key[symmetric])
  show "mset (srt xs) = mset xs" by (rule mset_srt)
  show "sorted (map key (srt xs))" by (rule sorted_srt)
  fix k
  assume "k \<in> set (srt xs)"
  show "filter (\<lambda>x. key k = key x) (srt xs) = filter (\<lambda>x. key k = key x) xs"
    using stable_srt[of "key k" xs] by (simp add: eq_commute)
qed

lemma srt_snoc:
  assumes "sorted (map key xs)"
  shows "srt (xs @ [x]) = takeWhile (\<lambda>z. key z \<le> key x) xs @ [x] @ dropWhile (\<lambda>z. key z \<le> key x) xs"
    (is "_ = ?ys")
proof -
  let ?a = "takeWhile (\<lambda>z. key z \<le> key x) xs" and ?b = "dropWhile (\<lambda>z. key z \<le> key x) xs"
  have xs: "xs = ?a @ ?b" by simp
  have s: "sorted (map key ?a)" "sorted (map key ?b)"
    using assms by (metis map_append sorted_append xs)+
  have a: "\<forall>z \<in> set ?a. key z \<le> key x" by (auto dest: set_takeWhileD)
  have b: "\<forall>z \<in> set ?b. key x < key z"
  proof (cases ?b)
    case (Cons c cs)
    then have "\<not> key c \<le> key x" using hd_dropWhile[of "\<lambda>z. key z \<le> key x" xs] by auto
    with s(2) Cons show ?thesis by auto
  next
    case Nil
    show ?thesis unfolding Nil by (simp only: list.set(1) ball_empty)
  qed
  have "sort_key key (xs @ [x]) = ?ys"
  proof (rule properties_for_sort_key)
    show "mset ?ys = mset (xs @ [x])" by (subst (3) xs) (simp del: takeWhile_dropWhile_id)
    show "sorted (map key ?ys)" using s a b by (fastforce simp: sorted_append)
    fix k
    assume "k \<in> set ?ys"
    show "filter (\<lambda>z. key k = key z) ?ys = filter (\<lambda>z. key k = key z) (xs @ [x])"
    proof (cases "key k = key x")
      case True
      then have "filter (\<lambda>z. key k = key z) ?b = []" using b by (auto simp: filter_empty_conv)
      with True show ?thesis by (subst (3) xs) (simp del: takeWhile_dropWhile_id)
    next
      case False
      then show ?thesis by (subst (3) xs) (simp del: takeWhile_dropWhile_id)
    qed
  qed
  then show ?thesis by (simp add: srt_eq_sort_key)
qed

end

lemma stable_sorts_by_qsort: "stable_sorts_by (qsort (greater_cmp key)) key"
  by unfold_locales (use qsort_sorted_stable[of key] in \<open>auto simp: mset_qsort\<close>)

end
