(* ===== verification/Cache.thy ===== *)
theory Cache
  imports Prelude Qsort
begin

text \<open>
  The time index of \<open>cache.c\<close> and \<open>cache.h\<close>: one \<open>cache_t\<close> per raw log file, holding the
  time and the file offset of every record, in a global table.

  \<open>elems\<close> is the list of the \<open>nr_elems\<close> entries written so far, \<open>max_elems\<close> the capacity
  of the allocation. The global pointer array \<open>caches\<close> is a list, \<open>nr_caches\<close> its length, and
  a \<open>cache_t\<close> pointer is an index of it. \<open>time_t\<close> values are only compared and stored, and
  are read as integers; \<open>off_t\<close> is a 64-bit word. Allocation does not fail (the code asserts
  or ignores it).
\<close>

section \<open>Data\<close>

type_synonym time_t = int
type_synonym off_t = "64 word"

record cache_elem_t =
  elem_time :: time_t
  elem_off :: off_t

record cache_t =
  cache_name :: string
  cache_flags :: "32 word"
  max_elems :: nat
  elems :: "cache_elem_t list"
  st_size :: int
  st_mtim :: "int \<times> int"

abbreviation nr_elems :: "cache_t \<Rightarrow> nat" where
  "nr_elems c \<equiv> length (elems c)"

type_synonym cache_table = "cache_t list"

definition RECORDS_TRUNK :: nat where
  "RECORDS_TRUNK = 60 * 60 div 10"

section \<open>The table\<close>

fun cache_find_from :: "nat \<Rightarrow> string \<Rightarrow> cache_table \<Rightarrow> nat option" where
  "cache_find_from i name [] = None"
| "cache_find_from i name (c # cs) =
     (if cache_name c = name then Some i else cache_find_from (Suc i) name cs)"

definition cache_find :: "string \<Rightarrow> cache_table \<Rightarrow> nat option" where
  "cache_find name caches = cache_find_from 0 name caches"

definition fresh_cache :: "string \<Rightarrow> cache_t" where
  "fresh_cache name = \<lparr>cache_name = name, cache_flags = 0, max_elems = RECORDS_TRUNK,
     elems = [], st_size = 0, st_mtim = (0, 0)\<rparr>"

text \<open>\<open>cache_alloc\<close> asserts that the name is new and appends an empty cache.\<close>

definition cache_alloc :: "string \<Rightarrow> cache_table \<Rightarrow> (nat \<times> cache_table) res" where
  "cache_alloc name caches =
     (case cache_find name caches of
        Some _ \<Rightarrow> Inl AssertFailed
      | None \<Rightarrow> Inr (length caches, caches @ [fresh_cache name]))"

definition cache_free :: "string \<Rightarrow> cache_table \<Rightarrow> cache_table" where
  "cache_free name caches =
     (case cache_find name caches of
        None \<Rightarrow> caches
      | Some i \<Rightarrow> take i caches @ drop (Suc i) caches)"

section \<open>Insertion\<close>

definition cache_elems_cmp :: "cache_elem_t \<Rightarrow> cache_elem_t \<Rightarrow> int" where
  "cache_elems_cmp e1 e2 = (if elem_time e1 > elem_time e2 then 1 else 0)"

definition cache_set :: "time_t \<Rightarrow> off_t \<Rightarrow> cache_t \<Rightarrow> cache_t" where
  "cache_set time off cache =
     (let cap = (if nr_elems cache = max_elems cache then max_elems cache + RECORDS_TRUNK
                 else max_elems cache);
          new_elem = \<lparr>elem_time = time, elem_off = off\<rparr>;
          es = elems cache @ [new_elem];
          cache' = cache\<lparr>max_elems := cap, elems := es\<rparr>
      in if length es = 1 then cache'
         else if elem_time (es ! (length es - 2)) > elem_time new_elem
              then cache'\<lparr>elems := qsort cache_elems_cmp es\<rparr>
              else cache')"

section \<open>Ordering of the table\<close>

text \<open>
  \<open>cache_cmp\<close> reads \<open>elems[0].time\<close>. The array comes from \<open>calloc\<close>, so for a cache without
  entries this reads a zero.
\<close>

definition first_time :: "cache_t \<Rightarrow> time_t" where
  "first_time c = (case elems c of [] \<Rightarrow> 0 | e # _ \<Rightarrow> elem_time e)"

definition cache_cmp :: "cache_t \<Rightarrow> cache_t \<Rightarrow> int" where
  "cache_cmp c1 c2 = (if first_time c1 > first_time c2 then 1 else 0)"

definition cache_sort :: "cache_table \<Rightarrow> cache_table" where
  "cache_sort caches = qsort cache_cmp caches"

definition cache_get_recent :: "cache_table \<Rightarrow> nat option" where
  "cache_get_recent caches = (if caches = [] then None else Some (length caches - 1))"

section \<open>Lookup by time\<close>

fun cache_get_from :: "nat \<Rightarrow> time_t \<Rightarrow> cache_table \<Rightarrow> nat option res" where
  "cache_get_from i time [] = Inr None"
| "cache_get_from i time (c # cs) =
     (if elems c = [] then Inl AssertFailed
      else if time \<ge> elem_time (elems c ! 0) \<and> time \<le> elem_time (elems c ! (nr_elems c - 1))
           then Inr (Some i)
           else cache_get_from (Suc i) time cs)"

text \<open>\<open>__cache_get\<close>\<close>

definition cache_covering :: "time_t \<Rightarrow> cache_table \<Rightarrow> nat option res" where
  "cache_covering time caches = cache_get_from 0 time caches"

text \<open>
  The binary search of \<open>cache_get\<close>. \<open>left + right\<close> is computed in \<open>int\<close>: a sum of
  $2^{31}$ or more overflows.
\<close>

function bsearch :: "cache_elem_t list \<Rightarrow> time_t \<Rightarrow> nat \<Rightarrow> nat \<Rightarrow> off_t res" where
  "bsearch es time left right =
     (if left < right then
        (if left + right \<ge> 2 ^ 31 then Inl IntOverflow
         else let mid = (left + right) div 2
              in and_then (at es mid) (\<lambda>elem.
                   if time = elem_time elem then Inr (elem_off elem)
                   else if time < elem_time elem then bsearch es time left mid
                   else bsearch es time (mid + 1) right))
      else and_then (at es left) (\<lambda>elem. Inr (elem_off elem)))"
  by pat_completeness auto
termination
  by (relation "measure (\<lambda>(es, time, left, right). right - left)") auto

declare bsearch.simps [simp del]

definition cache_get :: "time_t \<Rightarrow> cache_table \<Rightarrow> (nat \<times> off_t) option res" where
  "cache_get time caches =
     and_then (cache_covering time caches) (\<lambda>found. case found of
        None \<Rightarrow> Inr None
      | Some i \<Rightarrow>
          let cache = caches ! i
          in if nr_elems cache \<le> 2
             then and_then (at (elems cache) 0) (\<lambda>e. Inr (Some (i, elem_off e)))
             else and_then (bsearch (elems cache) time 0 (nr_elems cache)) (\<lambda>off.
                    Inr (Some (i, off))))"

section \<open>The table as a finite map\<close>

text \<open>
  The interface of a table of named things, with the laws a client needs: what a lookup
  returns after an allocation and after a release, and that names stay unique. The clients of
  \<open>cache.c\<close> (\<open>rawlog_parse_one\<close>) look a name up before they allocate it.
\<close>

locale named_table =
  fixes names :: "'t \<Rightarrow> string list"
    and lookup :: "string \<Rightarrow> 't \<Rightarrow> 'c option"
    and alloc :: "string \<Rightarrow> 't \<Rightarrow> (nat \<times> 't) res"
    and free :: "string \<Rightarrow> 't \<Rightarrow> 't"
    and fresh :: "string \<Rightarrow> 'c"
  assumes lookup_None_iff: "lookup n t = None \<longleftrightarrow> n \<notin> set (names t)"
    and alloc_new: "lookup n t = None \<Longrightarrow> \<exists>i t'. alloc n t = Inr (i, t')"
    and alloc_old: "lookup n t \<noteq> None \<Longrightarrow> alloc n t = Inl AssertFailed"
    and lookup_alloc: "alloc n t = Inr (i, t') \<Longrightarrow>
      lookup m t' = (if m = n then Some (fresh n) else lookup m t)"
    and names_alloc: "alloc n t = Inr (i, t') \<Longrightarrow> names t' = names t @ [n]"
    and lookup_free: "distinct (names t) \<Longrightarrow>
      lookup m (free n t) = (if m = n then None else lookup m t)"
    and names_free: "names (free n t) = remove1 n (names t)"
begin

lemma alloc_defined_iff: "(\<exists>i t'. alloc n t = Inr (i, t')) \<longleftrightarrow> n \<notin> set (names t)"
  using alloc_new[of n t] alloc_old[of n t] lookup_None_iff[of n t] by fastforce

lemma distinct_alloc: "alloc n t = Inr (i, t') \<Longrightarrow> distinct (names t) \<Longrightarrow> distinct (names t')"
  using alloc_defined_iff[of n t] by (auto simp: names_alloc)

lemma distinct_free: "distinct (names t) \<Longrightarrow> distinct (names (free n t))"
  by (simp add: names_free)

text \<open>A release makes the name free again, and undoes an allocation for every lookup.\<close>

lemma alloc_after_free: "distinct (names t) \<Longrightarrow> \<exists>i t'. alloc n (free n t) = Inr (i, t')"
  by (simp add: alloc_defined_iff names_free)

lemma free_after_alloc:
  assumes "alloc n t = Inr (i, t')" "distinct (names t)"
  shows "lookup m (free n t') = lookup m t"
proof -
  have "distinct (names t')" by (rule distinct_alloc[OF assms])
  moreover have "lookup n t = None"
    using assms(1) alloc_old[of n t] by (cases "lookup n t") auto
  ultimately show ?thesis
    by (simp add: lookup_free lookup_alloc[OF assms(1)])
qed

end

abbreviation cache_names :: "cache_table \<Rightarrow> string list" where
  "cache_names \<equiv> map cache_name"

definition cache_lookup :: "string \<Rightarrow> cache_table \<Rightarrow> cache_t option" where
  "cache_lookup name caches = map_option (\<lambda>i. caches ! i) (cache_find name caches)"

lemma cache_find_from_Some:
  "cache_find_from k n cs = Some i \<Longrightarrow>
     k \<le> i \<and> i - k < length cs \<and> cache_name (cs ! (i - k)) = n
     \<and> n \<notin> set (cache_names (take (i - k) cs))"
proof (induction cs arbitrary: k)
  case (Cons c cs)
  show ?case
  proof (cases "cache_name c = n")
    case False
    with Cons.prems have "cache_find_from (Suc k) n cs = Some i" by simp
    from Cons.IH[OF this] False obtain j where "i - k = Suc j" "i - Suc k = j" "k \<le> i"
      by (metis Suc_diff_le Suc_le_eq diff_Suc_Suc less_imp_le_nat)
    with Cons.IH[OF \<open>cache_find_from (Suc k) n cs = Some i\<close>] False show ?thesis by auto
  qed (use Cons.prems in auto)
qed simp

lemma cache_find_from_None: "cache_find_from k n cs = None \<longleftrightarrow> n \<notin> set (cache_names cs)"
  by (induction cs arbitrary: k) auto

lemma cache_find_from_append:
  "cache_find_from k n (cs @ ds) =
     (case cache_find_from k n cs of Some i \<Rightarrow> Some i | None \<Rightarrow> cache_find_from (k + length cs) n ds)"
  by (induction cs arbitrary: k) (auto split: option.splits)

lemma cache_find_Some:
  assumes "cache_find n cs = Some i"
  shows "i < length cs" "cache_name (cs ! i) = n" "n \<notin> set (cache_names (take i cs))"
  using cache_find_from_Some[of 0 n cs i] assms by (auto simp: cache_find_def)

lemma cache_find_None: "cache_find n cs = None \<longleftrightarrow> n \<notin> set (cache_names cs)"
  by (simp add: cache_find_def cache_find_from_None)

lemma cache_find_nth:
  assumes "distinct (cache_names cs)" "i < length cs"
  shows "cache_find (cache_name (cs ! i)) cs = Some i"
proof (cases "cache_find (cache_name (cs ! i)) cs")
  case None
  with assms(2) show ?thesis by (simp add: cache_find_None)
next
  case (Some j)
  from cache_find_Some[OF Some] assms show ?thesis
    using Some by (metis length_map nth_eq_iff_index_eq nth_map)
qed

lemma cache_lookup_in_set:
  "distinct (cache_names cs) \<Longrightarrow> cache_lookup n cs = Some c \<longleftrightarrow> c \<in> set cs \<and> cache_name c = n"
  by (auto simp: cache_lookup_def cache_find_nth in_set_conv_nth dest: cache_find_Some)

lemma cache_names_free: "cache_names (cache_free n cs) = remove1 n (cache_names cs)"
proof (cases "cache_find n cs")
  case None
  then show ?thesis by (simp add: cache_free_def None remove1_idem cache_find_None[symmetric] del: set_map)
next
  case (Some i)
  note i = cache_find_Some[OF Some]
  have "cache_names cs = cache_names (take i cs) @ n # cache_names (drop (Suc i) cs)"
    by (metis i(1,2) id_take_nth_drop list.simps(9) map_append)
  with i(3) show ?thesis by (simp add: cache_free_def Some remove1_append)
qed

lemma cache_lookup_free:
  assumes "distinct (cache_names cs)"
  shows "cache_lookup m (cache_free n cs) = (if m = n then None else cache_lookup m cs)"
proof -
  have d: "distinct (cache_names (cache_free n cs))"
    using assms by (simp add: cache_names_free)
  have set: "c \<in> set (cache_free n cs) \<longleftrightarrow> c \<in> set cs \<and> cache_name c \<noteq> n" for c
  proof (cases "cache_find n cs")
    case None
    then have "n \<notin> set (cache_names cs)" by (rule iffD1[OF cache_find_None])
    then show ?thesis by (auto simp: cache_free_def None)
  next
    case (Some i)
    note i = cache_find_Some[OF Some]
    have cs: "cs = take i cs @ cs ! i # drop (Suc i) cs" by (rule id_take_nth_drop[OF i(1)])
    have "distinct (cache_names (take i cs) @ cache_name (cs ! i) # cache_names (drop (Suc i) cs))"
      using assms cs by (metis list.simps(9) map_append)
    then have "n \<notin> cache_name ` set (take i cs)" "n \<notin> cache_name ` set (drop (Suc i) cs)"
      using i(2) by simp_all
    then have "\<forall>c \<in> set (take i cs) \<union> set (drop (Suc i) cs). cache_name c \<noteq> n"
      by (metis Un_iff image_eqI)
    moreover have "set cs = set (take i cs) \<union> {cs ! i} \<union> set (drop (Suc i) cs)"
      by (subst cs) auto
    ultimately show ?thesis using i(2) by (auto simp: cache_free_def Some)
  qed
  have "cache_lookup m (cache_free n cs) = Some c \<longleftrightarrow> m \<noteq> n \<and> cache_lookup m cs = Some c" for c
    using cache_lookup_in_set[OF d] cache_lookup_in_set[OF assms] set by auto
  then show ?thesis by (metis not_None_eq)
qed

lemma cache_find_append:
  "cache_find m (cs @ [c]) = (case cache_find m cs of Some i \<Rightarrow> Some i
     | None \<Rightarrow> if cache_name c = m then Some (length cs) else None)"
  by (auto simp: cache_find_def cache_find_from_append split: option.splits)

lemma cache_alloc_Inr:
  "cache_alloc n t = Inr (i, t') \<longleftrightarrow> cache_find n t = None \<and> i = length t \<and> t' = t @ [fresh_cache n]"
  by (auto simp: cache_alloc_def split: option.splits)

lemma cache_name_fresh [simp]: "cache_name (fresh_cache n) = n"
  by (simp add: fresh_cache_def)

lemma cache_lookup_alloc:
  assumes "cache_alloc n t = Inr (i, t')"
  shows "cache_lookup m t' = (if m = n then Some (fresh_cache n) else cache_lookup m t)"
proof (cases "cache_find m t")
  case None
  with assms show ?thesis by (auto simp: cache_lookup_def cache_alloc_Inr cache_find_append)
next
  case (Some j)
  with cache_find_Some[OF Some] assms show ?thesis
    by (auto simp: cache_lookup_def cache_alloc_Inr cache_find_append nth_append)
qed

interpretation ct: named_table cache_names cache_lookup cache_alloc cache_free fresh_cache
proof
  show "cache_lookup n t = None \<longleftrightarrow> n \<notin> set (cache_names t)" for n t
    by (simp add: cache_lookup_def cache_find_None)
  show "cache_lookup n t = None \<Longrightarrow> \<exists>i t'. cache_alloc n t = Inr (i, t')" for n t
    by (simp add: cache_lookup_def cache_alloc_def)
  show "cache_lookup n t \<noteq> None \<Longrightarrow> cache_alloc n t = Inl AssertFailed" for n t
    by (auto simp: cache_lookup_def cache_alloc_def)
  show "cache_alloc n t = Inr (i, t') \<Longrightarrow>
      cache_lookup m t' = (if m = n then Some (fresh_cache n) else cache_lookup m t)" for n t i t' m
    by (rule cache_lookup_alloc)
  show "cache_alloc n t = Inr (i, t') \<Longrightarrow> cache_names t' = cache_names t @ [n]" for n t i t'
    by (auto simp: cache_alloc_def fresh_cache_def split: option.splits)
  show "distinct (cache_names t) \<Longrightarrow>
      cache_lookup m (cache_free n t) = (if m = n then None else cache_lookup m t)" for m n t
    by (rule cache_lookup_free)
  show "cache_names (cache_free n t) = remove1 n (cache_names t)" for n t
    by (rule cache_names_free)
qed

section \<open>Insertion keeps a cache sorted\<close>

text \<open>
  The invariant of one cache: its entries are in order of time and fit the allocation.
\<close>

definition times :: "cache_t \<Rightarrow> time_t list" where
  "times c = map elem_time (elems c)"

definition cache_inv :: "cache_t \<Rightarrow> bool" where
  "cache_inv c \<longleftrightarrow> sorted (times c) \<and> nr_elems c \<le> max_elems c"

lemma cache_elems_cmp_greater: "cache_elems_cmp = greater_cmp elem_time"
  by (intro ext) (simp add: cache_elems_cmp_def greater_cmp_def)

lemma cache_cmp_greater: "cache_cmp = greater_cmp first_time"
  by (intro ext) (simp add: cache_cmp_def greater_cmp_def)

interpretation es: stable_sorts_by "qsort cache_elems_cmp" elem_time
  unfolding cache_elems_cmp_greater by (rule stable_sorts_by_qsort)

interpretation cs: stable_sorts_by cache_sort first_time
  unfolding cache_sort_def[abs_def] cache_cmp_greater using stable_sorts_by_qsort[of first_time] by simp

lemma cache_set_frame [simp]:
  "cache_name (cache_set t off c) = cache_name c"
  "cache_flags (cache_set t off c) = cache_flags c"
  "st_size (cache_set t off c) = st_size c"
  "st_mtim (cache_set t off c) = st_mtim c"
  "nr_elems (cache_set t off c) = Suc (nr_elems c)"
  by (simp_all add: cache_set_def Let_def)

lemma max_elems_cache_set:
  "max_elems (cache_set t off c)
     = (if nr_elems c = max_elems c then max_elems c + RECORDS_TRUNK else max_elems c)"
  by (simp add: cache_set_def Let_def)

text \<open>\<open>cache_set\<close> on a sorted cache puts the entry behind the entries that are not later.\<close>

lemma elems_cache_set:
  assumes "sorted (times c)"
  shows "elems (cache_set t off c)
       = takeWhile (\<lambda>e. elem_time e \<le> t) (elems c) @ [\<lparr>elem_time = t, elem_off = off\<rparr>]
         @ dropWhile (\<lambda>e. elem_time e \<le> t) (elems c)"
proof (cases "elems c = [] \<or> elem_time (last (elems c)) \<le> t")
  case True
  have all: "\<forall>e \<in> set (elems c). elem_time e \<le> t"
  proof
    fix e assume e: "e \<in> set (elems c)"
    then obtain i where i: "i < nr_elems c" "elems c ! i = e" by (auto simp: in_set_conv_nth)
    then have "elem_time (elems c ! i) \<le> elem_time (elems c ! (nr_elems c - 1))"
      using sorted_nth_mono[OF assms, of i "nr_elems c - 1"] by (auto simp: times_def)
    moreover from i have "elems c ! (nr_elems c - 1) = last (elems c)"
      by (subst last_conv_nth) auto
    ultimately show "elem_time e \<le> t" using True e i by auto
  qed
  then have tw: "takeWhile (\<lambda>e. elem_time e \<le> t) (elems c) = elems c"
    and dw: "dropWhile (\<lambda>e. elem_time e \<le> t) (elems c) = []" by simp_all
  have "elems (cache_set t off c) = elems c @ [\<lparr>elem_time = t, elem_off = off\<rparr>]"
    using True by (auto simp: cache_set_def Let_def nth_append last_conv_nth)
  then show ?thesis by (simp only: tw dw append_Nil2)
next
  case False
  then have "elems (cache_set t off c) = qsort cache_elems_cmp (elems c @ [\<lparr>elem_time = t, elem_off = off\<rparr>])"
    by (auto simp: cache_set_def Let_def nth_append last_conv_nth)
  then show ?thesis
    using es.srt_snoc[of "elems c" "\<lparr>elem_time = t, elem_off = off\<rparr>"] assms by (simp add: times_def)
qed

lemma mset_elems_cache_set:
  assumes "sorted (times c)"
  shows "mset (elems (cache_set t off c)) = add_mset \<lparr>elem_time = t, elem_off = off\<rparr> (mset (elems c))"
proof -
  have "mset (elems c) = mset (takeWhile (\<lambda>e. elem_time e \<le> t) (elems c) @ dropWhile (\<lambda>e. elem_time e \<le> t) (elems c))"
    by simp
  then show ?thesis unfolding elems_cache_set[OF assms] by (simp del: takeWhile_dropWhile_id)
qed

lemma sorted_cache_set:
  assumes "sorted (times c)"
  shows "sorted (times (cache_set t off c))"
proof -
  have "sorted (times (cache_set t off c)) \<longleftrightarrow> sorted (map elem_time (qsort cache_elems_cmp (elems c @ [\<lparr>elem_time = t, elem_off = off\<rparr>])))"
    using es.srt_snoc[of "elems c" "\<lparr>elem_time = t, elem_off = off\<rparr>"] assms
    by (simp add: times_def elems_cache_set)
  then show ?thesis by (simp only: es.sorted_srt)
qed

lemma cache_inv_set [intro]: "cache_inv c \<Longrightarrow> cache_inv (cache_set t off c)"
  by (auto simp: cache_inv_def sorted_cache_set max_elems_cache_set RECORDS_TRUNK_def)

lemma cache_inv_fresh [simp]: "cache_inv (fresh_cache n)"
  by (simp add: cache_inv_def times_def fresh_cache_def)

section \<open>The search finds the right record\<close>

text \<open>
  The abstract contract of a lookup in a list sorted by time: index \<open>i\<close> is the answer for
  \<open>t\<close> when the entry is at \<open>t\<close>, or is the first entry after \<open>t\<close> while no entry is at \<open>t\<close>.
\<close>

definition answers :: "cache_elem_t list \<Rightarrow> time_t \<Rightarrow> nat \<Rightarrow> bool" where
  "answers es t i \<longleftrightarrow> i < length es \<and>
     (elem_time (es ! i) = t
      \<or> t < elem_time (es ! i) \<and> (\<forall>j < i. elem_time (es ! j) < t))"

lemma answers_exact:
  assumes "sorted (map elem_time es)" "answers es t i" "t \<in> elem_time ` set es"
  shows "elem_time (es ! i) = t"
proof (rule ccontr)
  assume "elem_time (es ! i) \<noteq> t"
  with assms(2) have i: "i < length es" "t < elem_time (es ! i)" "\<forall>j < i. elem_time (es ! j) < t"
    by (auto simp: answers_def)
  from assms(3) obtain j where j: "j < length es" "elem_time (es ! j) = t"
    by (auto simp: in_set_conv_nth)
  show False
  proof (cases "j < i")
    case True
    with i(3) j show False by auto
  next
    case False
    with sorted_nth_mono[OF assms(1), of i j] j i show False by simp
  qed
qed

lemma bsearch_correct:
  assumes "sorted (map elem_time es)" "length es \<le> 2 ^ 30"
    and "left \<le> right" "right \<le> length es" "es \<noteq> []" "t \<le> elem_time (last es)"
    and "\<forall>j < left. elem_time (es ! j) < t"
    and "\<forall>j < length es. right \<le> j \<longrightarrow> t < elem_time (es ! j)"
  shows "\<exists>i. answers es t i \<and> bsearch es t left right = Inr (elem_off (es ! i))"
  using assms
proof (induction es t left right rule: bsearch.induct)
  case (1 es t left right)
  show ?case
  proof (cases "left < right")
    case False
    have "left < length es"
    proof (rule ccontr)
      assume "\<not> left < length es"
      with "1.prems" have "\<forall>j < length es. elem_time (es ! j) < t" by auto
      with "1.prems"(5) have "elem_time (es ! (length es - 1)) < t" by simp
      with "1.prems"(5,6) show False by (simp add: last_conv_nth)
    qed
    with False "1.prems" have "answers es t left" by (auto simp: answers_def)
    with \<open>left < length es\<close> False show ?thesis
      by (subst bsearch.simps) (auto simp: Let_def)
  next
    case True
    let ?mid = "(left + right) div 2"
    from True have mid: "left \<le> ?mid" "?mid < right" by auto
    with "1.prems"(4) have ml: "?mid < length es" by simp
    have small: "\<not> 2 ^ 31 \<le> left + right" using "1.prems"(2-4) True by simp
    have unfold: "bsearch es t left right =
        (if t = elem_time (es ! ?mid) then Inr (elem_off (es ! ?mid))
         else if t < elem_time (es ! ?mid) then bsearch es t left ?mid
         else bsearch es t (?mid + 1) right)"
      using True small ml by (subst bsearch.simps) (simp add: Let_def)
    consider "t = elem_time (es ! ?mid)" | "t < elem_time (es ! ?mid)" | "elem_time (es ! ?mid) < t"
      by linarith
    then show ?thesis
    proof cases
      case 1
      with ml have "answers es t ?mid" by (simp add: answers_def)
      with unfold 1 show ?thesis by auto
    next
      case 2
      have "\<forall>j < length es. ?mid \<le> j \<longrightarrow> t < elem_time (es ! j)"
      proof (intro allI impI)
        fix j assume "j < length es" "?mid \<le> j"
        with sorted_nth_mono[OF "1.prems"(1), of ?mid j] ml 2 show "t < elem_time (es ! j)" by simp
      qed
      moreover from 2 have ne: "t \<noteq> elem_time (es ! ?mid)" by simp
      ultimately have "\<exists>i. answers es t i \<and> bsearch es t left ?mid = Inr (elem_off (es ! i))"
        using "1.IH"(1)[OF True small refl at_in[OF ml] ne 2] "1.prems" mid by auto
      then show ?thesis using unfold 2 ne by simp
    next
      case 3
      have "\<forall>j < ?mid + 1. elem_time (es ! j) < t"
      proof (intro allI impI)
        fix j assume "j < ?mid + 1"
        with sorted_nth_mono[OF "1.prems"(1), of j ?mid] ml 3 show "elem_time (es ! j) < t" by simp
      qed
      moreover from 3 have ne: "t \<noteq> elem_time (es ! ?mid)" "\<not> t < elem_time (es ! ?mid)" by auto
      ultimately have "\<exists>i. answers es t i \<and> bsearch es t (?mid + 1) right = Inr (elem_off (es ! i))"
        using "1.IH"(2)[OF True small refl at_in[OF ml] ne] "1.prems" mid by auto
      then show ?thesis using unfold ne by simp
    qed
  qed
qed

text \<open>A cache covers a time that lies between its first and its last entry.\<close>

definition covers :: "cache_t \<Rightarrow> time_t \<Rightarrow> bool" where
  "covers c t \<longleftrightarrow> elem_time (elems c ! 0) \<le> t \<and> t \<le> elem_time (elems c ! (nr_elems c - 1))"

lemma cache_get_from_Some:
  assumes "i < length cs" "\<forall>j \<le> i. elems (cs ! j) \<noteq> []"
    and "covers (cs ! i) t" "\<forall>j < i. \<not> covers (cs ! j) t"
  shows "cache_get_from k t cs = Inr (Some (k + i))"
  using assms
proof (induction cs arbitrary: k i)
  case (Cons c cs)
  show ?case
  proof (cases i)
    case 0
    with Cons.prems show ?thesis by (auto simp: covers_def)
  next
    case (Suc i')
    have "cache_get_from (Suc k) t cs = Inr (Some (Suc k + i'))"
    proof (rule Cons.IH)
      show "i' < length cs" "covers (cs ! i') t" using Cons.prems(1,3) Suc by auto
      show "\<forall>j \<le> i'. elems (cs ! j) \<noteq> []" using Cons.prems(2) Suc by (metis Suc_le_mono nth_Cons_Suc)
      show "\<forall>j < i'. \<not> covers (cs ! j) t" using Cons.prems(4) Suc by (metis Suc_mono nth_Cons_Suc)
    qed
    moreover have "elems c \<noteq> []" "\<not> covers c t" using Cons.prems(2,4) Suc by force+
    ultimately show ?thesis using Suc by (auto simp: covers_def)
  qed
qed simp

lemma cache_get_from_None:
  assumes "\<forall>c \<in> set cs. elems c \<noteq> [] \<and> \<not> covers c t"
  shows "cache_get_from k t cs = Inr None"
  using assms by (induction cs arbitrary: k) (auto simp: covers_def)

lemma cache_covering_index:
  assumes "cache_get_from k t cs = Inr (Some i)"
  shows "k \<le> i \<and> i - k < length cs \<and> elems (cs ! (i - k)) \<noteq> [] \<and> covers (cs ! (i - k)) t"
  using assms
proof (induction cs arbitrary: k)
  case (Cons c cs)
  show ?case
  proof (cases "elems c \<noteq> [] \<and> covers c t")
    case True
    with Cons.prems show ?thesis by (auto simp: covers_def)
  next
    case False
    with Cons.prems have "cache_get_from (Suc k) t cs = Inr (Some i)"
      by (auto simp: covers_def split: if_splits)
    from Cons.IH[OF this] show ?thesis
      by (auto simp: nth_Cons' Suc_le_eq)
  qed
qed simp

section \<open>The whole lookup\<close>

lemma cache_get_answers:
  assumes "i < length caches" "covers (caches ! i) t"
    and "\<forall>j < i. \<not> covers (caches ! j) t" "\<forall>j \<le> i. elems (caches ! j) \<noteq> []"
    and "cache_inv (caches ! i)" "2 < nr_elems (caches ! i)" "nr_elems (caches ! i) \<le> 2 ^ 30"
  shows "\<exists>k. answers (elems (caches ! i)) t k
           \<and> cache_get t caches = Inr (Some (i, elem_off (elems (caches ! i) ! k)))"
proof -
  let ?es = "elems (caches ! i)"
  have ne: "?es \<noteq> []" using assms(6) by auto
  have "t \<le> elem_time (last ?es)" using assms(2) ne by (simp add: covers_def last_conv_nth)
  then obtain k where k: "answers ?es t k" "bsearch ?es t 0 (nr_elems (caches ! i)) = Inr (elem_off (?es ! k))"
    using bsearch_correct[of ?es 0 "length ?es" t] assms(5,7) ne by (auto simp: cache_inv_def times_def)
  have "cache_covering t caches = Inr (Some i)"
    using cache_get_from_Some[of i caches t 0] assms(1-4) by (simp add: cache_covering_def)
  with k assms(6) show ?thesis by (auto simp: cache_get_def Let_def)
qed

section \<open>Properties\<close>

text \<open>
  C8. A lookup of a time that some cache covers answers from the first such cache (the table
  has no empty cache before it), with the offset of the record at that time, or, when there is
  none, of the first record after it. The search stays in the array and its index arithmetic
  does not overflow.
\<close>

theorem cache_get_hit:
  assumes "i < length caches" "covers (caches ! i) t"
    and "\<forall>j < i. \<not> covers (caches ! j) t" "\<forall>j \<le> i. elems (caches ! j) \<noteq> []"
    and "cache_inv (caches ! i)" "2 < nr_elems (caches ! i)" "nr_elems (caches ! i) \<le> 2 ^ 30"
  shows "\<exists>k. answers (elems (caches ! i)) t k
           \<and> cache_get t caches = Inr (Some (i, elem_off (elems (caches ! i) ! k)))"
  using cache_get_answers[OF assms] .

theorem cache_get_hit_witness:
  "\<exists>k. answers [\<lparr>elem_time = 1, elem_off = 10\<rparr>, \<lparr>elem_time = 3, elem_off = 30\<rparr>, \<lparr>elem_time = 5, elem_off = 50\<rparr>] 4 k
     \<and> cache_get 4 [(fresh_cache ''a'')\<lparr>elems :=
          [\<lparr>elem_time = 1, elem_off = 10\<rparr>, \<lparr>elem_time = 3, elem_off = 30\<rparr>, \<lparr>elem_time = 5, elem_off = 50\<rparr>]\<rparr>]
       = Inr (Some (0, elem_off ([\<lparr>elem_time = 1, elem_off = 10\<rparr>, \<lparr>elem_time = 3, elem_off = 30\<rparr>, \<lparr>elem_time = 5, elem_off = 50\<rparr>] ! k)))"
  using cache_get_hit[of 0 "[(fresh_cache ''a'')\<lparr>elems :=
      [\<lparr>elem_time = 1, elem_off = 10\<rparr>, \<lparr>elem_time = 3, elem_off = 30\<rparr>, \<lparr>elem_time = 5, elem_off = 50\<rparr>]\<rparr>]" 4]
  by (simp add: covers_def cache_inv_def times_def fresh_cache_def RECORDS_TRUNK_def)



text \<open>
  C39. A cache of one or two records answers every time it covers with its first record, even
  when the time asked for is exactly that of its second record.
\<close>

theorem cache_get_short:
  assumes "i < length caches" "covers (caches ! i) t"
    and "\<forall>j < i. \<not> covers (caches ! j) t" "\<forall>j \<le> i. elems (caches ! j) \<noteq> []"
    and "nr_elems (caches ! i) \<le> 2"
  shows "cache_get t caches = Inr (Some (i, elem_off (elems (caches ! i) ! 0)))"
proof -
  have "cache_covering t caches = Inr (Some i)"
    using cache_get_from_Some[of i caches t 0] assms(1-4) by (simp add: cache_covering_def)
  with assms(4,5) show ?thesis by (simp add: cache_get_def Let_def)
qed

theorem cache_get_short_witness:
  "cache_get 3 [(fresh_cache ''a'')\<lparr>elems :=
      [\<lparr>elem_time = 1, elem_off = 10\<rparr>, \<lparr>elem_time = 3, elem_off = 30\<rparr>]\<rparr>] = Inr (Some (0, 10))"
  using cache_get_short[of 0 "[(fresh_cache ''a'')\<lparr>elems :=
      [\<lparr>elem_time = 1, elem_off = 10\<rparr>, \<lparr>elem_time = 3, elem_off = 30\<rparr>]\<rparr>]" 3]
  by (simp add: covers_def fresh_cache_def)

text \<open>
  C11. Insertion into a well-formed cache puts the entry behind all entries that are not later
  and before all that are, changes nothing else of the list, and keeps the cache well-formed:
  sorted and within its allocation.
\<close>

theorem cache_set_spec:
  assumes "cache_inv c"
  shows "elems (cache_set t off c)
       = takeWhile (\<lambda>e. elem_time e \<le> t) (elems c) @ [\<lparr>elem_time = t, elem_off = off\<rparr>]
         @ dropWhile (\<lambda>e. elem_time e \<le> t) (elems c)
     \<and> cache_inv (cache_set t off c) \<and> cache_name (cache_set t off c) = cache_name c"
  using assms elems_cache_set[of c t off] by (auto simp: cache_inv_def[of c])

theorem cache_set_spec_witness:
  "map elem_time (elems (cache_set 101 1 (cache_set 102 2 (cache_set 100 0 (fresh_cache ''test0'')))))
     = [100, 101, 102]"
proof -
  let ?c = "cache_set 102 2 (cache_set 100 0 (fresh_cache ''test0''))"
  have "cache_inv ?c" by (intro cache_inv_set) simp
  from cache_set_spec[OF this, of 101 1] show ?thesis
    by (simp add: cache_set_def fresh_cache_def RECORDS_TRUNK_def)
qed

text \<open>
  C26. After \<open>cache_sort\<close> the table holds the same caches, and the cache that
  \<open>cache_get_recent\<close> gives is one whose first record is the latest first record of all.
\<close>

theorem cache_sort_recent:
  assumes "caches \<noteq> []"
  shows "mset (cache_sort caches) = mset caches
     \<and> (\<exists>i. cache_get_recent (cache_sort caches) = Some i \<and> i < length caches
          \<and> (\<forall>c \<in> set caches. first_time c \<le> first_time (cache_sort caches ! i)))"
proof -
  have ne: "cache_sort caches \<noteq> []" using assms by simp
  have "first_time c \<le> first_time (cache_sort caches ! (length caches - 1))" if "c \<in> set caches" for c
    using cs.last_srt_max[OF that] ne by (simp add: last_conv_nth)
  moreover have "cache_get_recent (cache_sort caches) = Some (length caches - 1)"
    using ne by (simp add: cache_get_recent_def)
  moreover have "length caches - 1 < length caches" using assms by simp
  ultimately show ?thesis using cs.mset_srt by blast
qed

theorem cache_sort_recent_witness:
  "mset (cache_sort [fresh_cache ''b'', fresh_cache ''a'']) = mset [fresh_cache ''b'', fresh_cache ''a'']
     \<and> cache_get_recent (cache_sort [fresh_cache ''b'', fresh_cache ''a'']) = Some 1"
proof -
  have "length (cache_sort [fresh_cache ''b'', fresh_cache ''a'']) = 2" by simp
  then show ?thesis
    using cache_sort_recent[of "[fresh_cache ''b'', fresh_cache ''a'']"]
    by (auto simp: cache_get_recent_def)
qed

text \<open>
  An empty cache in the table makes every lookup that gets as far as this cache fail the
  assertion of \<open>__cache_get\<close>, and so stops the server.
\<close>

theorem cache_get_empty_asserts:
  assumes "elems c = []" "\<forall>d \<in> set before. elems d \<noteq> [] \<and> \<not> covers d t"
  shows "cache_get t (before @ c # after) = Inl AssertFailed"
proof -
  have "cache_get_from k t (before @ c # after) = Inl AssertFailed" for k
    using assms(2) by (induction before arbitrary: k) (auto simp: assms(1) covers_def)
  then show ?thesis by (simp add: cache_get_def cache_covering_def)
qed

theorem cache_get_empty_asserts_witness: "cache_get 5 [fresh_cache ''a''] = Inl AssertFailed"
  using cache_get_empty_asserts[of "fresh_cache ''a''" "[]" 5 "[]"] by (simp add: fresh_cache_def)



text \<open>
  The comparison functions are not the three-way comparisons that the C standard asks of
  \<open>qsort\<close>: swapping the arguments does not change the sign.
\<close>

lemma cache_elems_cmp_not_antisymmetric:
  "\<exists>e1 e2. cache_elems_cmp e1 e2 > 0 \<and> \<not> cache_elems_cmp e2 e1 < 0"
  by (intro exI[of _ "\<lparr>elem_time = 1, elem_off = 0\<rparr>"] exI[of _ "\<lparr>elem_time = 0, elem_off = 0\<rparr>"])
    (simp add: cache_elems_cmp_def)

end
