(* ===== verification/JsonFormat.thy ===== *)
theory JsonFormat
  imports JsonSyntax
begin

text \<open>
  A static checker for format strings against the JSON automaton, with its soundness: if a
  format with arguments of given kinds is checked from one abstract state to another with bound
  \<open>n\<close>, then every expansion runs the automaton accordingly and has at most \<open>n\<close> bytes.
\<close>

section \<open>Bounds on one conversion\<close>

definition conv_bound :: "len_mod \<Rightarrow> nat option \<Rightarrow> byte \<Rightarrow> akind \<Rightarrow> nat option" where
  "conv_bound l p c k = (case k of
      K_int \<Rightarrow> (if c = CHR ''d'' \<and> l = L_none then Some 11
                else if c = CHR ''d'' \<and> l = L_h then Some 6
                else if c = CHR ''u'' \<and> l = L_none then Some 10
                else if c = CHR ''x'' \<and> l = L_none then Some 8 else None)
    | K_long \<Rightarrow> (if (c = CHR ''d'' \<or> c = CHR ''u'') \<and> (l = L_l \<or> l = L_ll) then Some 20 else None)
    | K_dbl n \<Rightarrow> (if c = CHR ''f'' \<and> l = L_none
                  then Some (n + 3 + (case p of None \<Rightarrow> 6 | Some q \<Rightarrow> q)) else None)
    | K_chr \<Rightarrow> (if c = CHR ''c'' \<and> l = L_none then Some 1 else None)
    | K_str b \<Rightarrow> (if c = CHR ''s'' \<and> l = L_none then
                    (case (b, p) of (None, None) \<Rightarrow> None | (Some n, None) \<Rightarrow> Some n
                       | (None, Some q) \<Rightarrow> Some q | (Some n, Some q) \<Rightarrow> Some (min n q)) else None)
    | K_quoted n \<Rightarrow> (if c = CHR ''s'' \<and> l = L_none \<and> p = None then Some n else None))"

lemma div_half_even_le: "a < n * b \<Longrightarrow> div_half_even a b \<le> n"
  using less_mult_imp_div_less[of a n b] by (simp add: div_half_even_def Let_def)

lemma scaled_le:
  assumes "dbl_below n (Finite neg m e)"
  shows "scaled p m e \<le> 10 ^ (n + p)"
proof (cases "0 \<le> e")
  case True
  with assms have "m * 2 ^ nat e < 10 ^ n" by (simp add: dbl_below_def)
  then have "m * 2 ^ nat e * 10 ^ p \<le> 10 ^ n * 10 ^ p" by simp
  with True show ?thesis by (simp add: scaled_def power_add)
next
  case False
  with assms have "m < 10 ^ n * 2 ^ nat (- e)" by (simp add: dbl_below_def)
  then have "m * 10 ^ p < (10 ^ n * 2 ^ nat (- e)) * 10 ^ p" by simp
  then have "m * 10 ^ p < 10 ^ (n + p) * 2 ^ nat (- e)" by (simp add: power_add mult_ac)
  then show ?thesis using False div_half_even_le by (simp add: scaled_def)
qed

lemma length_fixed_digits:
  assumes "x \<le> 10 ^ (n + p)"
  shows "length (fixed_digits p x) \<le> n + 2 + p"
proof -
  have "x div 10 ^ p \<le> 10 ^ (n + p) div 10 ^ p" using assms by (rule div_le_mono)
  then have "x div 10 ^ p \<le> 10 ^ n" by (simp add: power_add)
  also have "(10::nat) ^ n < 10 ^ Suc n" by simp
  finally have "length (dec_nat (x div 10 ^ p)) \<le> Suc n" by (intro length_dec_nat) simp_all
  moreover have "length (pad_left p (CHR ''0'') (dec_nat (x mod 10 ^ p))) \<le> p" if "p \<noteq> 0"
    using length_dec_nat[of p "x mod 10 ^ p"] that by (simp add: pad_left_def)
  ultimately show ?thesis by (auto simp: fixed_digits_def)
qed

lemma length_fmt_double: "dbl_below n x \<Longrightarrow> length (fmt_double p x) \<le> n + 3 + p"
  using length_fixed_digits[OF scaled_le] by (cases x) (fastforce simp: dbl_below_def)+

lemma length_sint32: "length (dec_int (sint (w :: 32 word))) \<le> 11"
  using sint_lt[of w] sint_ge[of w] length_dec_int[of 10 "sint w"] by simp

lemma length_sint16: "length (dec_int (sint (w :: 16 word))) \<le> 6"
  using sint_lt[of w] sint_ge[of w] length_dec_int[of 5 "sint w"] by simp

lemma length_sint64: "length (dec_int (sint (w :: 64 word))) \<le> 20"
  using sint_lt[of w] sint_ge[of w] length_dec_int[of 19 "sint w"] by simp

lemma length_unat32: "length (dec_nat (unat (w :: 32 word))) \<le> 10"
proof -
  have "unat w < 2 ^ LENGTH(32)" by (rule unsigned_less)
  then show ?thesis using length_dec_nat[of 10 "unat w"] by simp
qed

lemma length_unat64: "length (dec_nat (unat (w :: 64 word))) \<le> 20"
proof -
  have "unat w < 2 ^ LENGTH(64)" by (rule unsigned_less)
  then show ?thesis using length_dec_nat[of 20 "unat w"] by simp
qed

lemma length_hex32: "length (hex_nat (unat (w :: 32 word))) \<le> 8"
proof -
  have "unat w < 2 ^ LENGTH(32)" by (rule unsigned_less)
  then show ?thesis using length_hex_nat[of 8 "unat w"] by simp
qed

section \<open>Clean characters\<close>

lemma clean_append [simp]: "clean (s @ t) \<longleftrightarrow> clean s \<and> clean t"
  by (auto simp: clean_def)

lemma clean_Nil [simp]: "clean []"
  by (simp add: clean_def)

lemma clean_Cons [simp]: "clean (c # s) \<longleftrightarrow> clean_char c \<and> clean s"
  by (simp add: clean_def)

lemma digit_clean: "is_digit c \<Longrightarrow> clean_char c"
  by (auto simp: is_digit_def clean_char_def)

lemma clean_dec_nat [simp]: "clean (dec_nat n)"
  using dec_nat_digits digit_clean by (auto simp: clean_def)

lemma clean_dec_int [simp]: "clean (dec_int i)"
  by (simp add: dec_int_def clean_char_def)

lemma clean_hex_digit: "d < 16 \<Longrightarrow> clean_char (hex_digit d)"
proof -
  assume d: "d < 16"
  have c: "clean_char (char_of n)" if "48 \<le> n" "n < 128" "n \<noteq> 92" for n :: nat
    using that unfolding clean_char_def
    by (auto simp: of_char_of dest!: arg_cong[of "char_of n" _ "of_char :: char \<Rightarrow> nat"])
  show ?thesis using d by (auto simp: hex_digit_def intro: c)
qed

lemma clean_hex_nat [simp]: "clean (hex_nat n)"
proof (induction n rule: hex_nat.induct)
  case (1 n)
  then show ?case by (subst hex_nat.simps) (auto simp: clean_hex_digit)
qed

lemma clean_replicate [simp]: "clean_char c \<Longrightarrow> clean (replicate n c)"
  by (simp add: clean_def)

lemma clean_pad_left: "clean_char c \<Longrightarrow> clean s \<Longrightarrow> clean (pad_left n c s)"
  by (simp add: pad_left_def)

lemma clean_space [simp]: "clean_char (CHR '' '')"
  by (simp add: clean_char_def)

lemma clean_fmt_double: "clean (fmt_double p x)"
  by (cases x) (auto simp: fixed_digits_def clean_pad_left clean_char_def)

lemma clean_take: "clean s \<Longrightarrow> clean (take n s)"
  by (meson clean_def in_set_takeD)

section \<open>One conversion\<close>

definition prints_number :: "byte \<Rightarrow> akind \<Rightarrow> bool" where
  "prints_number c k = (case k of
      K_int \<Rightarrow> c = CHR ''d'' \<or> c = CHR ''u'' | K_long \<Rightarrow> True | K_dbl n \<Rightarrow> True | _ \<Rightarrow> False)"

definition prints_text :: "akind \<Rightarrow> bool" where
  "prints_text k = (case k of K_quoted n \<Rightarrow> False | _ \<Rightarrow> True)"

lemma convert_bounded:
  assumes "has_kind a k" "conv_bound l p c k = Some b"
  shows "\<exists>s. convert l p c a = Inr s \<and> length s \<le> b"
proof (cases a)
  case (A_int w)
  with assms show ?thesis
    by (auto simp: conv_bound_def length_sint32 length_sint16 length_unat32 length_hex32 split: if_splits)
next
  case (A_long w)
  with assms show ?thesis by (auto simp: conv_bound_def length_sint64 length_unat64 split: if_splits)
next
  case (A_dbl x)
  define q where "q = (case p of None \<Rightarrow> 6 | Some n \<Rightarrow> n)"
  from A_dbl assms obtain n where "dbl_below n x" "convert l p c a = Inr (fmt_double q x)" "b = n + 3 + q"
    by (auto simp: conv_bound_def q_def split: if_splits)
  with length_fmt_double[of n x q] show ?thesis by simp
next
  case (A_chr x)
  with assms show ?thesis by (auto simp: conv_bound_def split: if_splits)
next
  case (A_str s)
  let ?t = "case p of None \<Rightarrow> cstr s | Some n \<Rightarrow> take n (cstr s)"
  from A_str assms(1) have t: "str_arg p s = Inr ?t" by (simp add: str_arg_def split: option.splits)
  from A_str assms(1) consider
      (str) bd where "k = K_str bd" "\<forall>n. bd = Some n \<longrightarrow> length (cstr s) \<le> n"
    | (quoted) n where "k = K_quoted n" "length (cstr s) \<le> n"
    by (simp, elim conjE disjE exE) fastforce+
  then show ?thesis
  proof cases
    case str
    with assms(2) have "c = CHR ''s''" "l = L_none" by (simp_all add: conv_bound_def split: if_splits)
    moreover have "length ?t \<le> b"
      using assms(2) str by (cases bd; cases p) (simp_all add: conv_bound_def min.coboundedI1 split: if_splits)
    ultimately show ?thesis using A_str t by simp
  next
    case quoted
    with assms(2) have "c = CHR ''s''" "l = L_none" "p = None" "b = n"
      by (simp_all add: conv_bound_def split: if_splits)
    with A_str t quoted show ?thesis by simp
  qed
qed

lemma convert_text:
  assumes "has_kind a k" "conv_bound l p c k = Some b" "prints_text k" "convert l p c a = Inr s"
  shows "clean s"
  using assms
  by (cases a) (auto simp: conv_bound_def prints_text_def str_arg_def clean_fmt_double clean_take
      split: if_splits option.splits)

lemma convert_number:
  assumes "has_kind a k" "conv_bound l p c k = Some b" "prints_number c k" "convert l p c a = Inr s"
  shows "\<exists>m. (m = JZero \<or> m = JInt \<or> m = JFrac) \<and> jrun (stk, JVal) s = Some (stk, m)"
proof (cases a)
  case (A_int w)
  with assms show ?thesis
    using jrun_dec_int[of stk "sint w"] jrun_dec_int[of stk "sint (ucast w :: 16 word)"]
      jrun_dec_nat[of JVal stk "unat w"]
    by (auto simp: conv_bound_def prints_number_def split: if_splits)
next
  case (A_long w)
  with assms show ?thesis
    using jrun_dec_int[of stk "sint w"] jrun_dec_nat[of JVal stk "unat w"]
    by (auto simp: conv_bound_def prints_number_def split: if_splits)
next
  case (A_dbl x)
  with assms obtain n where "dbl_below n x" by auto
  from jrun_fmt_double[OF this] A_dbl assms show ?thesis
    by (auto simp: conv_bound_def split: if_splits option.splits)
qed (use assms in \<open>auto simp: prints_number_def\<close>)

lemma convert_quoted:
  assumes "has_kind a (K_quoted n)" "conv_bound l p c (K_quoted n) = Some b" "convert l p c a = Inr s"
  shows "\<exists>body. s = [CHR 0x22] @ body @ [CHR 0x22] \<and> clean body"
  using assms by (cases a) (auto simp: conv_bound_def str_arg_def split: if_splits)

section \<open>The checker\<close>

text \<open>
  Abstract states: an exact state; after a value in a container, which may be a number that
  could go on; before an element of an array, with or without a bracket to close it; after the
  elements of an array, if any.
\<close>

datatype astate = AS jstate | ANum "frame list" | AElem "frame list" | AArr "frame list"

definition gam :: "astate \<Rightarrow> jstate \<Rightarrow> bool" where
  "gam a st = (case a of
      AS s \<Rightarrow> st = s
    | ANum stk \<Rightarrow> fst st = stk \<and> (snd st = JAfter \<or> snd st = JZero \<or> snd st = JInt \<or> snd st = JFrac)
    | AElem stk \<Rightarrow> fst st = FArr # stk \<and> (snd st = JVal \<or> snd st = JValOrEnd)
    | AArr stk \<Rightarrow> fst st = FArr # stk \<and> (snd st = JValOrEnd \<or> snd st = JAfter))"

definition alit :: "astate \<Rightarrow> byte \<Rightarrow> astate option" where
  "alit a c = (case a of
      AS s \<Rightarrow> map_option AS (jstep s c)
    | ANum stk \<Rightarrow> (if is_ws c \<or> c = CHR '','' \<or> c = CHR ''}'' \<or> c = CHR '']''
                   then map_option AS (after_step stk c) else None)
    | AElem stk \<Rightarrow> (if c = CHR ''{'' then Some (AS (FObj # FArr # stk, JKeyOrEnd)) else None)
    | AArr stk \<Rightarrow> (if c = CHR '']'' then Some (AS (stk, JAfter)) else None))"

definition aconv :: "astate \<Rightarrow> nat \<Rightarrow> byte \<Rightarrow> akind \<Rightarrow> astate option" where
  "aconv a w c k = (case a of
      AS (stk, m) \<Rightarrow> (case m of
        JVal \<Rightarrow> (if w = 0 \<and> prints_number c k then Some (ANum stk) else None)
      | JStr b \<Rightarrow> (if prints_text k then Some (AS (stk, JStr b)) else None)
      | JKey \<Rightarrow> (if w = 0 \<and> \<not> prints_text k then Some (AS (stk, JColon)) else None)
      | _ \<Rightarrow> None)
    | _ \<Rightarrow> None)"

fun fcheck :: "astate \<Rightarrow> nat \<Rightarrow> directive list \<Rightarrow> akind list \<Rightarrow> (astate \<times> nat) option" where
  "fcheck a n [] ks = Some (a, n)"
| "fcheck a n (Lit c # ds) ks =
     (case alit a c of None \<Rightarrow> None | Some a' \<Rightarrow> fcheck a' (Suc n) ds ks)"
| "fcheck a n (Conv w p l c # ds) [] = None"
| "fcheck a n (Conv w p l c # ds) (k # ks) =
     (case conv_bound l p c k of None \<Rightarrow> None
      | Some b \<Rightarrow> (case aconv a w c k of None \<Rightarrow> None | Some a' \<Rightarrow> fcheck a' (n + max w b) ds ks))"

definition format_check :: "astate \<Rightarrow> string \<Rightarrow> akind list \<Rightarrow> (astate \<times> nat) option" where
  "format_check a fmt ks =
     (case parse_dirs In_text fmt of None \<Rightarrow> None | Some ds \<Rightarrow> fcheck a 0 ds ks)"

lemma gam_AS [simp]: "gam (AS s) st \<longleftrightarrow> st = s"
  by (simp add: gam_def)

lemma alit_sound:
  assumes "alit a c = Some a'" "gam a st"
  shows "\<exists>st'. jstep st c = Some st' \<and> gam a' st'"
proof (cases a)
  case (AS s)
  with assms show ?thesis by (auto simp: alit_def)
next
  case (ANum stk)
  with assms(1) have c: "is_ws c \<or> c = CHR '','' \<or> c = CHR ''}'' \<or> c = CHR '']''"
    and s: "map_option AS (after_step stk c) = Some a'" by (auto simp: alit_def split: if_splits)
  from c have "\<not> is_digit c" "c \<noteq> CHR ''.''" "c \<noteq> CHR ''e''" "c \<noteq> CHR ''E''"
    by (auto simp: is_ws_def is_digit_def)
  with ANum assms(2) s show ?thesis by (cases st) (auto simp: gam_def)
next
  case (AElem stk)
  with assms show ?thesis
    by (cases st) (auto simp: alit_def gam_def val_step_def is_ws_def split: if_splits)
next
  case (AArr stk)
  with assms show ?thesis
    by (cases st) (auto simp: alit_def gam_def after_step_def is_ws_def split: if_splits)
qed

lemma aconv_sound:
  assumes "aconv a w c k = Some a'" "gam a st" "has_kind x k" "conv_bound l p c k = Some b"
    and "convert l p c x = Inr s"
  shows "\<exists>st'. jrun st (pad_left w (CHR '' '') s) = Some st' \<and> gam a' st'"
proof -
  from assms(1) obtain stk m where a: "a = AS (stk, m)"
    by (auto simp: aconv_def split: astate.splits prod.splits)
  with assms(2) have st: "st = (stk, m)" by simp
  from assms(1) a consider
      (num) "m = JVal" "w = 0" "prints_number c k" "a' = ANum stk"
    | (instr) i where "m = JStr i" "prints_text k" "a' = AS (stk, JStr i)"
    | (key) "m = JKey" "w = 0" "\<not> prints_text k" "a' = AS (stk, JColon)"
    by (auto simp: aconv_def split: jmode.splits if_splits)
  then show ?thesis
  proof cases
    case num
    with convert_number[OF assms(3,4) num(3) assms(5), of stk] st show ?thesis
      by (auto simp: gam_def pad_left_def)
  next
    case instr
    have "clean (pad_left w (CHR '' '') s)"
      using convert_text[OF assms(3,4) instr(2) assms(5)] by (simp add: clean_pad_left)
    with instr st show ?thesis by (simp add: jrun_clean)
  next
    case key
    then obtain n where "k = K_quoted n" by (auto simp: prints_text_def split: akind.splits)
    with convert_quoted assms(3-5) obtain body where "s = [CHR 0x22] @ body @ [CHR 0x22]" "clean body"
      by blast
    with key st show ?thesis by (simp add: pad_left_def jrun_append jrun_clean is_ws_def)
  qed
qed

lemma length_pad_left: "length (pad_left w c s) = max w (length s)"
  by (simp add: pad_left_def)

text \<open>Soundness of the checker.\<close>

lemma fcheck_sound:
  assumes "fcheck a n ds ks = Some (a', n')" "list_all2 has_kind xs ks" "gam a st"
  shows "\<exists>t st'. apply_dirs ds xs = Inr t \<and> n + length t \<le> n' \<and> jrun st t = Some st' \<and> gam a' st'"
  using assms
proof (induction a n ds ks arbitrary: xs st rule: fcheck.induct)
  case (1 a n ks)
  then show ?case by (intro exI[of _ "[]"] exI[of _ st]) simp
next
  case (2 a n c ds ks)
  then obtain a1 where a1: "alit a c = Some a1" "fcheck a1 (Suc n) ds ks = Some (a', n')"
    by (auto split: option.splits)
  obtain st1 where st1: "jstep st c = Some st1" "gam a1 st1" using alit_sound[OF a1(1) 2(4)] by blast
  from "2.IH"[OF a1 2(3) st1(2)] st1(1) show ?case by auto
next
  case (3 a n w p l c ds)
  then show ?case by simp
next
  case (4 a n w p l c ds k ks)
  then obtain b a1 where a1: "conv_bound l p c k = Some b" "aconv a w c k = Some a1"
      "fcheck a1 (n + max w b) ds ks = Some (a', n')"
    by (auto split: option.splits)
  from 4(3) obtain y ys where xs: "xs = y # ys" "has_kind y k" "list_all2 has_kind ys ks"
    by (auto simp: list_all2_Cons2)
  obtain s where s: "convert l p c y = Inr s" "length s \<le> b" using convert_bounded[OF xs(2) a1(1)] by blast
  obtain st1 where st1: "jrun st (pad_left w (CHR '' '') s) = Some st1" "gam a1 st1"
    using aconv_sound[OF a1(2) 4(4) xs(2) a1(1) s(1)] by blast
  obtain t st' where "apply_dirs ds ys = Inr t" "n + max w b + length t \<le> n'" "jrun st1 t = Some st'" "gam a' st'"
    using "4.IH"[OF a1 xs(3) st1(2)] by blast
  with xs s st1 show ?case
    by (intro exI[of _ "pad_left w (CHR '' '') s @ t"] exI[of _ st']) (simp add: jrun_append length_pad_left)
qed

lemma format_check_sound:
  assumes "format_check a fmt ks = Some (a', n)" "list_all2 has_kind xs ks" "gam a st"
  shows "\<exists>t st'. c_format fmt xs = Inr t \<and> length t \<le> n \<and> jrun st t = Some st' \<and> gam a' st'"
  using assms fcheck_sound[of a 0] by (auto simp: format_check_def c_format_def split: option.splits)

end
