(* ===== verification/JsonData.thy ===== *)
theory JsonData
  imports Cache Output JsonFormat
begin

text \<open>
  The data that \<open>json.c\<close> reads: one sample of the system (\<open>struct sstat\<close>), the list of
  tasks (\<open>struct tstat\<close>) and the globals of \<open>config.h\<close>.

  The structs are declared in the \<open>atop\<close> submodule, which is not part of the repository. The
  records hold the fields that the code of this repository reads, under their names, prefixed by
  a short tag of the struct. A field that is printed with \<open>%lld\<close> or \<open>%ld\<close> is a 64-bit word
  (\<open>count_t\<close> of \<open>config.h\<close>), one that is printed with \<open>%d\<close>, \<open>%hd\<close> or \<open>%x\<close> is a 32-bit
  word after promotion, one printed with \<open>%f\<close> is a \<open>cfloat\<close>, and a character array is its
  bytes. Arithmetic on counters wraps at 64 bits.
\<close>

section \<open>The sample\<close>

type_synonym count_t = "64 word"

record freqcnt =
  fc_maxfreq :: count_t
  fc_cnt :: count_t
  fc_ticks :: count_t

record percpu =
  cp_stime :: count_t
  cp_utime :: count_t
  cp_ntime :: count_t
  cp_itime :: count_t
  cp_wtime :: count_t
  cp_Itime :: count_t
  cp_Stime :: count_t
  cp_steal :: count_t
  cp_guest :: count_t
  cp_freqcnt :: freqcnt
  cp_instr :: count_t
  cp_cycle :: count_t

record cpustat =
  cpu_nrcpu :: count_t
  cpu_devint :: count_t
  cpu_csw :: count_t
  cpu_lavg1 :: cfloat
  cpu_lavg5 :: cfloat
  cpu_lavg15 :: cfloat
  cpu_all :: percpu
  cpu_cpu :: "percpu list"

record pergpu =
  pg_busid :: bytes
  pg_type :: bytes
  pg_gpupercnow :: "32 word"
  pg_mempercnow :: "32 word"
  pg_memtotnow :: count_t
  pg_memusenow :: count_t
  pg_samples :: count_t
  pg_gpuperccum :: count_t
  pg_memperccum :: count_t
  pg_memusecum :: count_t

record gpustat =
  gpu_nrgpus :: "32 word"
  gpu_gpu :: "pergpu list"

record memstat =
  mem_physmem :: count_t
  mem_freemem :: count_t
  mem_cachemem :: count_t
  mem_buffermem :: count_t
  mem_slabmem :: count_t
  mem_cachedrt :: count_t
  mem_slabreclaim :: count_t
  mem_vmwballoon :: count_t
  mem_shmem :: count_t
  mem_shmrss :: count_t
  mem_shmswp :: count_t
  mem_pagetables :: count_t
  mem_hugepagesz :: count_t
  mem_tothugepage :: count_t
  mem_freehugepage :: count_t
  mem_tcpsock :: count_t
  mem_udpsock :: count_t
  mem_totswap :: count_t
  mem_freeswap :: count_t
  mem_swapcached :: count_t
  mem_committed :: count_t
  mem_commitlim :: count_t
  mem_allocstall :: count_t
  mem_compactstall :: count_t
  mem_numamigrate :: count_t
  mem_pgmigrate :: count_t
  mem_pgscans :: count_t
  mem_pgsteal :: count_t
  mem_pgins :: count_t
  mem_pgouts :: count_t
  mem_swins :: count_t
  mem_swouts :: count_t
  mem_oomkills :: count_t

record psi =
  psi_avg10 :: cfloat
  psi_avg60 :: cfloat
  psi_avg300 :: cfloat
  psi_total :: count_t

record pressure =
  prs_present :: bool
  prs_cpusome :: psi
  prs_memsome :: psi
  prs_memfull :: psi
  prs_iosome :: psi
  prs_iofull :: psi

record perdsk =
  dk_name :: bytes
  dk_io_ms :: count_t
  dk_nread :: count_t
  dk_ndisc :: count_t
  dk_nrsect :: count_t
  dk_nwrite :: count_t
  dk_nwsect :: count_t
  dk_avque :: count_t
  dk_inflight :: count_t

record dskstat =
  dsk_lvm :: "perdsk list"
  dsk_mdd :: "perdsk list"
  dsk_dsk :: "perdsk list"

record pernfsmnt =
  nm_mountdev :: bytes
  nm_bytestotread :: count_t
  nm_bytestotwrite :: count_t
  nm_bytesread :: count_t
  nm_byteswrite :: count_t
  nm_bytesdread :: count_t
  nm_bytesdwrite :: count_t
  nm_pagesmread :: count_t
  nm_pagesmwrite :: count_t

record nfsclient =
  nc_rpccnt :: count_t
  nc_rpcread :: count_t
  nc_rpcwrite :: count_t
  nc_rpcretrans :: count_t
  nc_rpcautrefresh :: count_t

record nfsserver =
  ns_rpccnt :: count_t
  ns_rpcread :: count_t
  ns_rpcwrite :: count_t
  ns_nrbytes :: count_t
  ns_nwbytes :: count_t
  ns_rpcbadfmt :: count_t
  ns_rpcbadaut :: count_t
  ns_rpcbadcln :: count_t
  ns_netcnt :: count_t
  ns_nettcpcnt :: count_t
  ns_netudpcnt :: count_t
  ns_nettcpcon :: count_t
  ns_rchits :: count_t
  ns_rcmiss :: count_t
  ns_rcnoca :: count_t

record nfsmounts =
  nfm_nrmounts :: "32 word"
  nfm_nfsmnt :: "pernfsmnt list"

record nfsstat =
  nfs_nfsmounts :: nfsmounts
  nfs_client :: nfsclient
  nfs_server :: nfsserver

record tcp_stats =
  tcp_InSegs :: count_t
  tcp_OutSegs :: count_t
  tcp_InErrs :: count_t
  tcp_OutRsts :: count_t
  tcp_ActiveOpens :: count_t
  tcp_PassiveOpens :: count_t
  tcp_RetransSegs :: count_t

record udpv4_stats =
  udp4_NoPorts :: count_t
  udp4_InErrors :: count_t
  udp4_InDatagrams :: count_t
  udp4_OutDatagrams :: count_t

record udpv6_stats =
  udp6_Udp6InDatagrams :: count_t
  udp6_Udp6OutDatagrams :: count_t

record ipv4_stats =
  ip4_InReceives :: count_t
  ip4_OutRequests :: count_t
  ip4_InDelivers :: count_t
  ip4_ForwDatagrams :: count_t

record ipv6_stats =
  ip6_Ip6InReceives :: count_t
  ip6_Ip6OutRequests :: count_t
  ip6_Ip6InDelivers :: count_t
  ip6_Ip6OutForwDatagrams :: count_t

record icmpv4_stats =
  icmp4_InMsgs :: count_t
  icmp4_OutMsgs :: count_t

record icmpv6_stats =
  icmp6_Icmp6InMsgs :: count_t
  icmp6_Icmp6OutMsgs :: count_t

record netstat =
  net_tcp :: tcp_stats
  net_udpv4 :: udpv4_stats
  net_udpv6 :: udpv6_stats
  net_ipv4 :: ipv4_stats
  net_ipv6 :: ipv6_stats
  net_icmpv4 :: icmpv4_stats
  net_icmpv6 :: icmpv6_stats

record perintf =
  if_name :: bytes
  if_rpack :: count_t
  if_rbyte :: count_t
  if_rerrs :: count_t
  if_rdrop :: count_t
  if_spack :: count_t
  if_sbyte :: count_t
  if_serrs :: count_t
  if_sdrop :: count_t
  if_speed :: count_t
  if_scollis :: count_t
  if_rmultic :: count_t
  if_duplex :: "32 word"

record intfstat =
  intf_intf :: "perintf list"

record perifb =
  ib_ibname :: bytes
  ib_portnr :: "32 word"
  ib_lanes :: "32 word"
  ib_rate :: count_t
  ib_rcvb :: count_t
  ib_sndb :: count_t
  ib_rcvp :: count_t
  ib_sndp :: count_t

record ifbstat =
  ifb_nrports :: "32 word"
  ifb_ifb :: "perifb list"

record pernuma =
  mn_frag :: cfloat
  mn_totmem :: count_t
  mn_freemem :: count_t
  mn_active :: count_t
  mn_inactive :: count_t
  mn_filepage :: count_t
  mn_dirtymem :: count_t
  mn_slabmem :: count_t
  mn_slabreclaim :: count_t
  mn_shmem :: count_t
  mn_tothp :: count_t

record memnuma =
  memnuma_nrnuma :: "32 word"
  memnuma_numa :: "pernuma list"

record percpunuma =
  cn_numanr :: "32 word"
  cn_nrcpu :: count_t
  cn_stime :: count_t
  cn_utime :: count_t
  cn_ntime :: count_t
  cn_itime :: count_t
  cn_wtime :: count_t
  cn_Itime :: count_t
  cn_Stime :: count_t
  cn_steal :: count_t
  cn_guest :: count_t

record cpunuma =
  cpunuma_nrnuma :: "32 word"
  cpunuma_numa :: "percpunuma list"

record perllc =
  lc_id :: "32 word"
  lc_occupancy :: cfloat
  lc_mbm_total :: count_t
  lc_mbm_local :: count_t

record llcstat =
  llc_nrllcs :: "32 word"
  llc_perllc :: "perllc list"

record sstat =
  ss_cpu :: cpustat
  ss_mem :: memstat
  ss_psi :: pressure
  ss_dsk :: dskstat
  ss_nfs :: nfsstat
  ss_net :: netstat
  ss_intf :: intfstat
  ss_ifb :: ifbstat
  ss_memnuma :: memnuma
  ss_cpunuma :: cpunuma
  ss_llc :: llcstat
  ss_gpu :: gpustat

record tgen =
  tg_tgid :: "32 word"
  tg_pid :: "32 word"
  tg_ppid :: "32 word"
  tg_ruid :: "32 word"
  tg_euid :: "32 word"
  tg_rgid :: "32 word"
  tg_egid :: "32 word"
  tg_nthr :: "32 word"
  tg_name :: bytes
  tg_isproc :: "32 word"
  tg_state :: byte
  tg_excode :: "32 word"
  tg_btime :: count_t
  tg_elaps :: count_t
  tg_cmdline :: bytes
  tg_nthrslpi :: "32 word"
  tg_nthrslpu :: "32 word"
  tg_nthrrun :: "32 word"
  tg_container :: bytes
  tg_wasinactive :: "32 word"

record tcpu =
  tc_utime :: count_t
  tc_stime :: count_t
  tc_nice :: "32 word"
  tc_prio :: "32 word"
  tc_curcpu :: "32 word"
  tc_sleepavg :: "32 word"
  tc_rundelay :: count_t
  tc_blkdelay :: count_t

record tmem =
  tm_vmem :: count_t
  tm_rmem :: count_t
  tm_vexec :: count_t
  tm_vgrow :: count_t
  tm_rgrow :: count_t
  tm_minflt :: count_t
  tm_majflt :: count_t
  tm_vlibs :: count_t
  tm_vdata :: count_t
  tm_vstack :: count_t
  tm_vlock :: count_t
  tm_vswap :: count_t
  tm_pmem :: count_t

record tdsk =
  td_rio :: count_t
  td_rsz :: count_t
  td_wio :: count_t
  td_wsz :: count_t
  td_cwsz :: count_t

record tnet =
  tn_tcpsnd :: count_t
  tn_tcpssz :: count_t
  tn_tcprcv :: count_t
  tn_tcprsz :: count_t
  tn_udpsnd :: count_t
  tn_udpssz :: count_t
  tn_udprcv :: count_t
  tn_udprsz :: count_t

record tgpu =
  tp_state :: byte
  tp_nrgpus :: "32 word"
  tp_gpulist :: "32 word"
  tp_gpubusy :: "32 word"
  tp_membusy :: "32 word"
  tp_memnow :: count_t
  tp_memcum :: count_t
  tp_sample :: count_t

record tstat =
  ts_gen :: tgen
  ts_cpu :: tcpu
  ts_mem :: tmem
  ts_dsk :: tdsk
  ts_net :: tnet
  ts_gpu :: tgpu

section \<open>Globals and what the submodule defines\<close>

text \<open>
  Constants of \<open>atop.h\<close> and \<open>rawlog.h\<close> of the submodule, as parameters.
\<close>

record atop_flags =
  c_ACCTACTIVE :: "32 word"
  c_IOSTAT :: "32 word"
  c_NETATOP :: "32 word"
  c_NETATOPD :: "32 word"
  c_CGROUPV2 :: "32 word"
  c_DOCKSTAT :: "32 word"
  c_GPUSTAT :: "32 word"
  c_RAWLOGNG :: "32 word"
  c_RRACCTACTIVE :: "32 word"
  c_RRIOSTAT :: "32 word"
  c_RRNETATOP :: "32 word"
  c_RRNETATOPD :: "32 word"
  c_RRCGRSTAT :: "32 word"
  c_RRDOCKSTAT :: "32 word"
  c_RRGPUSTAT :: "32 word"

text \<open>
  The globals: \<open>utsname.nodename\<close>, \<open>pagesize\<close>, \<open>hertz\<close>, \<open>hidecmdline\<close>. \<open>mul_frag\<close> and
  \<open>mul_occ\<close> are the products \<open>frag * 100.0\<close> and \<open>occupancy * 100\<close>: the types of the two
  fields, and so the precision of the products, are the submodule's.
\<close>

record jenv =
  nodename :: bytes
  pagesize :: "32 word"
  hertz :: "16 word"
  hidecmdline :: "32 word"
  mul_frag :: "cfloat \<Rightarrow> cfloat"
  mul_occ :: "cfloat \<Rightarrow> cfloat"
  aflags :: atop_flags

record devtstat =
  taskall :: "tstat list"
  procall :: "nat list"
  procactive :: "nat list"
  ntaskall :: nat
  nprocall :: nat
  nprocactive :: nat
  ntaskactive :: nat
  totrun :: "32 word"
  totslpi :: "32 word"
  totslpu :: "32 word"
  totzombie :: "32 word"

end
