(* ===== verification/Json.thy ===== *)
theory Json
  imports JsonData
begin

text \<open>
  The printers of \<open>json.c\<close>, and \<open>jsondef\<close> and \<open>jsonout\<close>, which select and run them.

  A printer takes the arguments of the C function (\<open>flags\<close>, \<open>hp\<close>, \<open>ss\<close>, \<open>ps\<close>,
  \<open>nact\<close>), the globals and the output buffer, and returns the buffer. Formats are the
  source's string literals. The three forms of loops are shared: over an index below a count,
  over an array that an entry with an empty name ends, and over the tasks.
\<close>

unbundle bit_operations_syntax

section \<open>Helpers\<close>

definition LEN_HP_SIZE :: nat where
  "LEN_HP_SIZE = 64"

definition LINE_BUF_SIZE :: nat where
  "LINE_BUF_SIZE = 1024"

text \<open>
  \<open>buflen = snprintf (buf, sizeof (buf), ...); output_samp (&defop, buf, buflen)\<close>. When the
  text does not fit, \<open>buflen\<close> exceeds what the array holds and is read beyond its end.
\<close>

definition put_line :: "output_t \<Rightarrow> string \<Rightarrow> parg list \<Rightarrow> output_t res" where
  "put_line op fmt as =
     and_then (c_snprintf LINE_BUF_SIZE fmt as) (\<lambda>(buf, buflen). output_samp op buf buflen)"

definition put_lit :: "output_t \<Rightarrow> string \<Rightarrow> output_t res" where
  "put_lit op s = output_samp op (s @ [NUL]) (int (length s))"

definition fmt_br :: string where
  \<open>fmt_br = '', %s: [''\<close>

definition put_br :: "output_t \<Rightarrow> bytes \<Rightarrow> output_t res" where
  "put_br op hp =
     and_then (c_sprintf LEN_HP_SIZE fmt_br [A_str hp]) (\<lambda>(br, buflen). output_samp op br buflen)"

text \<open>The part of a printer that writes an array.\<close>

definition array_section :: "bytes \<Rightarrow> (output_t \<Rightarrow> output_t res) \<Rightarrow> output_t \<Rightarrow> output_t res" where
  "array_section hp loop op =
     and_then (put_br op hp) (\<lambda>op. and_then (loop op) (\<lambda>op. put_lit op '']''))"

definition comma :: "nat \<Rightarrow> output_t \<Rightarrow> output_t res" where
  "comma i op = (if i > 0 then put_lit op '', '' else Inr op)"

text \<open>\<open>for (i = 0; i < n; i++)\<close>; the third argument is the number of rounds that are left.\<close>

fun idx_loop :: "(nat \<Rightarrow> output_t \<Rightarrow> output_t res) \<Rightarrow> nat \<Rightarrow> nat \<Rightarrow> output_t \<Rightarrow> output_t res" where
  "idx_loop body i 0 op = Inr op"
| "idx_loop body i (Suc k) op =
     and_then (comma i op) (\<lambda>op. and_then (body i op) (\<lambda>op. idx_loop body (Suc i) k op))"

text \<open>\<open>for (i = 0; a[i].name[0]; i++)\<close>: there is no bound but the entry with an empty name.\<close>

fun name_loop ::
    "('e \<Rightarrow> bytes) \<Rightarrow> ('e \<Rightarrow> output_t \<Rightarrow> output_t res) \<Rightarrow> nat \<Rightarrow> 'e list \<Rightarrow> output_t \<Rightarrow> output_t res" where
  "name_loop name body i [] op = Inl OutOfBounds"
| "name_loop name body i (e # es) op =
     and_then (at (name e) 0) (\<lambda>c.
       if c = NUL then Inr op
       else and_then (comma i op) (\<lambda>op. and_then (body e op) (\<lambda>op. name_loop name body (Suc i) es op)))"

text \<open>
  \<open>for (i = 0; i < nact; i++, ps++)\<close>, which skips the thread that stands for its own process.
  A skipped task counts for \<open>i\<close>, which decides on the comma.
\<close>

definition skipped :: "tstat \<Rightarrow> bool" where
  "skipped p \<longleftrightarrow> tg_tgid (ts_gen p) = tg_pid (ts_gen p) \<and> tg_isproc (ts_gen p) = 0"

fun task_loop ::
    "(tstat \<Rightarrow> output_t \<Rightarrow> output_t res) \<Rightarrow> nat \<Rightarrow> nat \<Rightarrow> tstat list \<Rightarrow> output_t \<Rightarrow> output_t res" where
  "task_loop body i 0 ps op = Inr op"
| "task_loop body i (Suc k) [] op = Inl OutOfBounds"
| "task_loop body i (Suc k) (p # ps) op =
     (if skipped p then task_loop body (Suc i) k ps op
      else and_then (comma i op) (\<lambda>op. and_then (body p op) (\<lambda>op. task_loop body (Suc i) k ps op)))"

text \<open>
  Signed 64-bit division of C: it truncates towards zero, and is undefined for a zero divisor
  and for the quotient that does not fit.
\<close>

definition c_sdiv :: "64 word \<Rightarrow> 64 word \<Rightarrow> 64 word res" where
  "c_sdiv a b =
     (if b = 0 then Inl DivByZero
      else if sint a = - (2 ^ 63) \<and> sint b = - 1 then Inl IntOverflow
      else Inr (word_of_int (sgn (sint a) * sgn (sint b) * (\<bar>sint a\<bar> div \<bar>sint b\<bar>))))"

section \<open>System-level statistics\<close>

type_synonym printer =
  "jenv \<Rightarrow> 32 word \<Rightarrow> bytes \<Rightarrow> sstat \<Rightarrow> tstat list \<Rightarrow> nat \<Rightarrow> output_t \<Rightarrow> output_t res"

text \<open>The frequency, and its percentage of the maximum, which is cut to an \<open>int\<close>.\<close>

definition json_calc_freqscale :: "count_t \<Rightarrow> count_t \<Rightarrow> count_t \<Rightarrow> (count_t \<times> 32 word) res" where
  "json_calc_freqscale maxfreq cnt ticks =
     (if maxfreq \<noteq> 0 \<and> ticks \<noteq> 0
      then and_then (c_sdiv cnt ticks) (\<lambda>freq.
           and_then (c_sdiv (100 * freq) maxfreq) (\<lambda>perc. Inr (freq, ucast perc)))
      else if maxfreq \<noteq> 0
      then and_then (c_sdiv (100 * cnt) maxfreq) (\<lambda>perc. Inr (cnt, ucast perc))
      else if cnt \<noteq> 0 then Inr (cnt, 100)
      else Inr (0, 100))"

text \<open>The loop of \<open>json_print_CPU\<close> that adds up the frequency counters.\<close>

fun sum_freqcnt :: "percpu list \<Rightarrow> nat \<Rightarrow> nat \<Rightarrow> count_t \<Rightarrow> count_t \<Rightarrow> (count_t \<times> count_t) res" where
  "sum_freqcnt cs i 0 cnt ticks = Inr (cnt, ticks)"
| "sum_freqcnt cs i (Suc k) cnt ticks =
     and_then (at cs i) (\<lambda>c.
       sum_freqcnt cs (Suc i) k (cnt + fc_cnt (cp_freqcnt c)) (ticks + fc_ticks (cp_freqcnt c)))"

text \<open>
  \<open>if (ss->cpu.all.instr == 1)\<close>: there were no hardware counters, and both are cleared in the
  sample.
\<close>

definition clear_instr :: "sstat \<Rightarrow> sstat" where
  "clear_instr ss =
     (if cp_instr (cpu_all (ss_cpu ss)) = 1
      then ss\<lparr>ss_cpu := (ss_cpu ss)\<lparr>cpu_all := (cpu_all (ss_cpu ss))\<lparr>cp_instr := 0, cp_cycle := 0\<rparr>\<rparr>\<rparr>
      else ss)"

definition fmt_CPU :: string where
  \<open>fmt_CPU =
     '', %s: {''
     @ ''"hertz": %u, ''
     @ ''"nrcpu": %lld, ''
     @ ''"stime": %lld, ''
     @ ''"utime": %lld, ''
     @ ''"ntime": %lld, ''
     @ ''"itime": %lld, ''
     @ ''"wtime": %lld, ''
     @ ''"Itime": %lld, ''
     @ ''"Stime": %lld, ''
     @ ''"steal": %lld, ''
     @ ''"guest": %lld, ''
     @ ''"freq": %lld, ''
     @ ''"freqperc": %d, ''
     @ ''"instr": %lld, ''
     @ ''"cycle": %lld}''\<close>

definition json_print_CPU ::
    "jenv \<Rightarrow> 32 word \<Rightarrow> bytes \<Rightarrow> sstat \<Rightarrow> tstat list \<Rightarrow> nat \<Rightarrow> output_t \<Rightarrow> (sstat \<times> output_t) res" where
  "json_print_CPU env flags hp ss ps nact op =
     and_then (sum_freqcnt (cpu_cpu (ss_cpu ss)) 0 (nat (sint (cpu_nrcpu (ss_cpu ss)))) 0 0) (\<lambda>(cnt, ticks).
     and_then (at (cpu_cpu (ss_cpu ss)) 0) (\<lambda>c0.
     and_then (json_calc_freqscale (fc_maxfreq (cp_freqcnt c0)) cnt ticks) (\<lambda>(freq, freqperc).
       let ss = clear_instr ss
       in and_then (put_line op fmt_CPU
            [A_str hp, A_int (ucast (hertz env)), A_long (cpu_nrcpu (ss_cpu ss)),
             A_long (cp_stime (cpu_all (ss_cpu ss))), A_long (cp_utime (cpu_all (ss_cpu ss))),
             A_long (cp_ntime (cpu_all (ss_cpu ss))), A_long (cp_itime (cpu_all (ss_cpu ss))),
             A_long (cp_wtime (cpu_all (ss_cpu ss))), A_long (cp_Itime (cpu_all (ss_cpu ss))),
             A_long (cp_Stime (cpu_all (ss_cpu ss))), A_long (cp_steal (cpu_all (ss_cpu ss))),
             A_long (cp_guest (cpu_all (ss_cpu ss))), A_long freq, A_int freqperc,
             A_long (cp_instr (cpu_all (ss_cpu ss))), A_long (cp_cycle (cpu_all (ss_cpu ss)))]) (\<lambda>op.
          Inr (ss, op)))))"

definition fmt_cpu :: string where
  \<open>fmt_cpu =
     ''{"cpuid": %d, ''
     @ ''"stime": %lld, ''
     @ ''"utime": %lld, ''
     @ ''"ntime": %lld, ''
     @ ''"itime": %lld, ''
     @ ''"wtime": %lld, ''
     @ ''"Itime": %lld, ''
     @ ''"Stime": %lld, ''
     @ ''"steal": %lld, ''
     @ ''"guest": %lld, ''
     @ ''"freq": %lld, ''
     @ ''"freqperc": %d, ''
     @ ''"instr": %lld, ''
     @ ''"cycle": %lld}''\<close>

definition json_print_cpu :: printer where
  "json_print_cpu env flags hp ss ps nact op =
     array_section hp (idx_loop (\<lambda>i op.
       and_then (at (cpu_cpu (ss_cpu ss)) i) (\<lambda>e.
       and_then (at (cpu_cpu (ss_cpu ss)) 0) (\<lambda>c0.
       and_then (json_calc_freqscale (fc_maxfreq (cp_freqcnt c0)) (fc_cnt (cp_freqcnt e))
                   (fc_ticks (cp_freqcnt e))) (\<lambda>(freq, freqperc).
         put_line op fmt_cpu
           [A_int (of_nat i), A_long (cp_stime e), A_long (cp_utime e), A_long (cp_ntime e),
            A_long (cp_itime e), A_long (cp_wtime e), A_long (cp_Itime e), A_long (cp_Stime e),
            A_long (cp_steal e), A_long (cp_guest e), A_long freq, A_int freqperc,
            A_long (cp_instr e), A_long (cp_cycle e)])))) 0 (nat (sint (cpu_nrcpu (ss_cpu ss))))) op"

definition fmt_CPL :: string where
  \<open>fmt_CPL =
     '', %s: {''
     @ ''"lavg1": %.2f, ''
     @ ''"lavg5": %.2f, ''
     @ ''"lavg15": %.2f, ''
     @ ''"csw": %lld, ''
     @ ''"devint": %lld}''\<close>

definition json_print_CPL :: printer where
  "json_print_CPL env flags hp ss ps nact op =
     put_line op fmt_CPL
       [A_str hp, A_dbl (cpu_lavg1 (ss_cpu ss)), A_dbl (cpu_lavg5 (ss_cpu ss)),
        A_dbl (cpu_lavg15 (ss_cpu ss)), A_long (cpu_csw (ss_cpu ss)),
        A_long (cpu_devint (ss_cpu ss))]"

definition fmt_GPU :: string where
  \<open>fmt_GPU =
     ''{"gpuid": %d, ''
     @ ''"busid": "%.19s", ''
     @ ''"type": "%.19s", ''
     @ ''"gpupercnow": %d, ''
     @ ''"mempercnow": %d, ''
     @ ''"memtotnow": %lld, ''
     @ ''"memusenow": %lld, ''
     @ ''"samples": %lld, ''
     @ ''"gpuperccum": %lld, ''
     @ ''"memperccum": %lld, ''
     @ ''"memusecum": %lld}''\<close>

definition json_print_GPU :: printer where
  "json_print_GPU env flags hp ss ps nact op =
     array_section hp (idx_loop (\<lambda>i op. and_then (at (gpu_gpu (ss_gpu ss)) i) (\<lambda>e.
       put_line op fmt_GPU
         [A_int (of_nat i), A_str (pg_busid e), A_str (pg_type e), A_int (pg_gpupercnow e),
          A_int (pg_mempercnow e), A_long (pg_memtotnow e), A_long (pg_memusenow e),
          A_long (pg_samples e), A_long (pg_gpuperccum e), A_long (pg_memperccum e),
          A_long (pg_memusecum e)])) 0 (nat (sint (gpu_nrgpus (ss_gpu ss))))) op"

definition fmt_MEM :: string where
  \<open>fmt_MEM =
     '', %s: {''
     @ ''"physmem": %lld, ''
     @ ''"freemem": %lld, ''
     @ ''"cachemem": %lld, ''
     @ ''"buffermem": %lld, ''
     @ ''"slabmem": %lld, ''
     @ ''"cachedrt": %lld, ''
     @ ''"slabreclaim": %lld, ''
     @ ''"vmwballoon": %lld, ''
     @ ''"shmem": %lld, ''
     @ ''"shmrss": %lld, ''
     @ ''"shmswp": %lld, ''
     @ ''"pagetables": %lld, ''
     @ ''"hugepagesz": %lld, ''
     @ ''"tothugepage": %lld, ''
     @ ''"freehugepage": %lld, ''
     @ ''"tcpsk": %lld, ''
     @ ''"udpsk": %lld}''\<close>

definition json_print_MEM :: printer where
  "json_print_MEM env flags hp ss ps nact op =
     put_line op fmt_MEM
       [A_str hp, A_long ((mem_physmem (ss_mem ss)) * (ucast (pagesize env))),
        A_long ((mem_freemem (ss_mem ss)) * (ucast (pagesize env))),
        A_long ((mem_cachemem (ss_mem ss)) * (ucast (pagesize env))),
        A_long ((mem_buffermem (ss_mem ss)) * (ucast (pagesize env))),
        A_long ((mem_slabmem (ss_mem ss)) * (ucast (pagesize env))),
        A_long ((mem_cachedrt (ss_mem ss)) * (ucast (pagesize env))),
        A_long ((mem_slabreclaim (ss_mem ss)) * (ucast (pagesize env))),
        A_long ((mem_vmwballoon (ss_mem ss)) * (ucast (pagesize env))),
        A_long ((mem_shmem (ss_mem ss)) * (ucast (pagesize env))),
        A_long ((mem_shmrss (ss_mem ss)) * (ucast (pagesize env))),
        A_long ((mem_shmswp (ss_mem ss)) * (ucast (pagesize env))),
        A_long ((mem_pagetables (ss_mem ss)) * (ucast (pagesize env))),
        A_long (mem_hugepagesz (ss_mem ss)), A_long (mem_tothugepage (ss_mem ss)),
        A_long (mem_freehugepage (ss_mem ss)),
        A_long ((mem_tcpsock (ss_mem ss)) * (ucast (pagesize env))),
        A_long ((mem_udpsock (ss_mem ss)) * (ucast (pagesize env)))]"

definition fmt_SWP :: string where
  \<open>fmt_SWP =
     '', %s: {''
     @ ''"totswap": %lld, ''
     @ ''"freeswap": %lld, ''
     @ ''"swcac": %lld, ''
     @ ''"committed": %lld, ''
     @ ''"commitlim": %lld}''\<close>

definition json_print_SWP :: printer where
  "json_print_SWP env flags hp ss ps nact op =
     put_line op fmt_SWP
       [A_str hp, A_long ((mem_totswap (ss_mem ss)) * (ucast (pagesize env))),
        A_long ((mem_freeswap (ss_mem ss)) * (ucast (pagesize env))),
        A_long ((mem_swapcached (ss_mem ss)) * (ucast (pagesize env))),
        A_long ((mem_committed (ss_mem ss)) * (ucast (pagesize env))),
        A_long ((mem_commitlim (ss_mem ss)) * (ucast (pagesize env)))]"

definition fmt_PAG :: string where
  \<open>fmt_PAG =
     '', %s: {''
     @ ''"stall": %lld, ''
     @ ''"compacts": %lld, ''
     @ ''"numamigs": %lld, ''
     @ ''"migrates": %lld, ''
     @ ''"pgscans": %lld, ''
     @ ''"pgsteal": %lld,''
     @ ''"allocstall": %lld, ''
     @ ''"pgins": %lld, ''
     @ ''"pgouts": %lld, ''
     @ ''"swins": %lld, ''
     @ ''"swouts": %lld, ''
     @ ''"oomkills": %lld}''\<close>

definition json_print_PAG :: printer where
  "json_print_PAG env flags hp ss ps nact op =
     put_line op fmt_PAG
       [A_str hp, A_long (mem_allocstall (ss_mem ss)), A_long (mem_compactstall (ss_mem ss)),
        A_long (mem_numamigrate (ss_mem ss)), A_long (mem_pgmigrate (ss_mem ss)),
        A_long (mem_pgscans (ss_mem ss)), A_long (mem_pgsteal (ss_mem ss)),
        A_long (mem_allocstall (ss_mem ss)), A_long (mem_pgins (ss_mem ss)),
        A_long (mem_pgouts (ss_mem ss)), A_long (mem_swins (ss_mem ss)),
        A_long (mem_swouts (ss_mem ss)), A_long (mem_oomkills (ss_mem ss))]"

definition fmt_PSI :: string where
  \<open>fmt_PSI =
     '', %s: {''
     @ ''"psi": "%c", ''
     @ ''"cs10": %.1f, ''
     @ ''"cs60": %.1f, ''
     @ ''"cs300": %.1f, ''
     @ ''"cstot": %llu, ''
     @ ''"ms10": %.1f, ''
     @ ''"ms60": %.1f, ''
     @ ''"ms300": %.1f, ''
     @ ''"mstot": %llu, ''
     @ ''"mf10": %.1f, ''
     @ ''"mf60": %.1f, ''
     @ ''"mf300": %.1f, ''
     @ ''"mftot": %llu, ''
     @ ''"ios10": %.1f, ''
     @ ''"ios60": %.1f, ''
     @ ''"ios300": %.1f, ''
     @ ''"iostot": %llu, ''
     @ ''"iof10": %.1f, ''
     @ ''"iof60": %.1f, ''
     @ ''"iof300": %.1f, ''
     @ ''"ioftot": %llu}''\<close>

definition json_print_PSI :: printer where
  "json_print_PSI env flags hp ss ps nact op =
     (if \<not> prs_present (ss_psi ss) then Inr op
      else
       put_line op fmt_PSI
         [A_str hp, A_chr (if prs_present (ss_psi ss) then CHR ''y'' else CHR ''n''),
          A_dbl (psi_avg10 (prs_cpusome (ss_psi ss))), A_dbl (psi_avg60 (prs_cpusome (ss_psi ss))),
          A_dbl (psi_avg300 (prs_cpusome (ss_psi ss))),
          A_long (psi_total (prs_cpusome (ss_psi ss))), A_dbl (psi_avg10 (prs_memsome (ss_psi ss))),
          A_dbl (psi_avg60 (prs_memsome (ss_psi ss))), A_dbl (psi_avg300 (prs_memsome (ss_psi ss))),
          A_long (psi_total (prs_memsome (ss_psi ss))), A_dbl (psi_avg10 (prs_memfull (ss_psi ss))),
          A_dbl (psi_avg60 (prs_memfull (ss_psi ss))), A_dbl (psi_avg300 (prs_memfull (ss_psi ss))),
          A_long (psi_total (prs_memfull (ss_psi ss))), A_dbl (psi_avg10 (prs_iosome (ss_psi ss))),
          A_dbl (psi_avg60 (prs_iosome (ss_psi ss))), A_dbl (psi_avg300 (prs_iosome (ss_psi ss))),
          A_long (psi_total (prs_iosome (ss_psi ss))), A_dbl (psi_avg10 (prs_iofull (ss_psi ss))),
          A_dbl (psi_avg60 (prs_iofull (ss_psi ss))), A_dbl (psi_avg300 (prs_iofull (ss_psi ss))),
          A_long (psi_total (prs_iofull (ss_psi ss)))])"

definition fmt_LVM :: string where
  \<open>fmt_LVM =
     ''{"lvmname": "%.19s", ''
     @ ''"io_ms": %lld, ''
     @ ''"nread": %lld, ''
     @ ''"ndiscrd": %lld, ''
     @ ''"nrsect": %lld, ''
     @ ''"nwrite": %lld, ''
     @ ''"nwsect": %lld, ''
     @ ''"avque": %lld, ''
     @ ''"inflight": %lld}''\<close>

definition json_print_LVM :: printer where
  "json_print_LVM env flags hp ss ps nact op =
     array_section hp (name_loop dk_name (\<lambda>e op.
       put_line op fmt_LVM
         [A_str (dk_name e), A_long (dk_io_ms e), A_long (dk_nread e), A_long (dk_ndisc e),
          A_long (dk_nrsect e), A_long (dk_nwrite e), A_long (dk_nwsect e), A_long (dk_avque e),
          A_long (dk_inflight e)]) 0 (dsk_lvm (ss_dsk ss))) op"

definition fmt_MDD :: string where
  \<open>fmt_MDD =
     ''{"mddname": "%.19s", ''
     @ ''"io_ms": %lld, ''
     @ ''"nread": %lld, ''
     @ ''"nrsect": %lld, ''
     @ ''"nwrite": %lld, ''
     @ ''"nwsect": %lld, ''
     @ ''"avque": %lld, ''
     @ ''"inflight": %lld}''\<close>

definition json_print_MDD :: printer where
  "json_print_MDD env flags hp ss ps nact op =
     array_section hp (name_loop dk_name (\<lambda>e op.
       put_line op fmt_MDD
         [A_str (dk_name e), A_long (dk_io_ms e), A_long (dk_nread e), A_long (dk_nrsect e),
          A_long (dk_nwrite e), A_long (dk_nwsect e), A_long (dk_avque e), A_long (dk_inflight e)]) 0 (dsk_mdd (ss_dsk ss))) op"

definition fmt_DSK :: string where
  \<open>fmt_DSK =
     ''{"dskname": "%.19s", ''
     @ ''"io_ms": %lld, ''
     @ ''"nread": %lld, ''
     @ ''"nrsect": %lld, ''
     @ ''"ndiscrd": %lld, ''
     @ ''"nwrite": %lld, ''
     @ ''"nwsect": %lld, ''
     @ ''"avque": %lld, ''
     @ ''"inflight": %lld}''\<close>

definition json_print_DSK :: printer where
  "json_print_DSK env flags hp ss ps nact op =
     array_section hp (name_loop dk_name (\<lambda>e op.
       put_line op fmt_DSK
         [A_str (dk_name e), A_long (dk_io_ms e), A_long (dk_nread e), A_long (dk_nrsect e),
          A_long (dk_ndisc e), A_long (dk_nwrite e), A_long (dk_nwsect e), A_long (dk_avque e),
          A_long (dk_inflight e)]) 0 (dsk_dsk (ss_dsk ss))) op"

definition fmt_NFM :: string where
  \<open>fmt_NFM =
     ''{"mountdev": "%.19s", ''
     @ ''"bytestotread": %lld, ''
     @ ''"bytestotwrite": %lld, ''
     @ ''"bytesread": %lld, ''
     @ ''"byteswrite": %lld, ''
     @ ''"bytesdread": %lld, ''
     @ ''"bytesdwrite": %lld, ''
     @ ''"pagesmread": %lld, ''
     @ ''"pagesmwrite": %lld}''\<close>

definition json_print_NFM :: printer where
  "json_print_NFM env flags hp ss ps nact op =
     array_section hp (idx_loop (\<lambda>i op. and_then (at (nfm_nfsmnt (nfs_nfsmounts (ss_nfs ss))) i) (\<lambda>e.
       put_line op fmt_NFM
         [A_str (nm_mountdev e), A_long (nm_bytestotread e), A_long (nm_bytestotwrite e),
          A_long (nm_bytesread e), A_long (nm_byteswrite e), A_long (nm_bytesdread e),
          A_long (nm_bytesdwrite e), A_long ((nm_pagesmread e) * (ucast (pagesize env))),
          A_long ((nm_pagesmwrite e) * (ucast (pagesize env)))])) 0 (nat (sint (nfm_nrmounts (nfs_nfsmounts (ss_nfs ss)))))) op"

definition fmt_NFC :: string where
  \<open>fmt_NFC =
     '', %s: {''
     @ ''"rpccnt": %lld, ''
     @ ''"rpcread": %lld, ''
     @ ''"rpcwrite": %lld, ''
     @ ''"rpcretrans": %lld, ''
     @ ''"rpcautrefresh": %lld}''\<close>

definition json_print_NFC :: printer where
  "json_print_NFC env flags hp ss ps nact op =
     put_line op fmt_NFC
       [A_str hp, A_long (nc_rpccnt (nfs_client (ss_nfs ss))),
        A_long (nc_rpcread (nfs_client (ss_nfs ss))),
        A_long (nc_rpcwrite (nfs_client (ss_nfs ss))),
        A_long (nc_rpcretrans (nfs_client (ss_nfs ss))),
        A_long (nc_rpcautrefresh (nfs_client (ss_nfs ss)))]"

definition fmt_NFS :: string where
  \<open>fmt_NFS =
     '', %s: {''
     @ ''"rpccnt": %lld, ''
     @ ''"rpcread": %lld, ''
     @ ''"rpcwrite": %lld, ''
     @ ''"nrbytes": %lld, ''
     @ ''"nwbytes": %lld, ''
     @ ''"rpcbadfmt": %lld, ''
     @ ''"rpcbadaut": %lld, ''
     @ ''"rpcbadcln": %lld, ''
     @ ''"netcnt": %lld, ''
     @ ''"nettcpcnt": %lld, ''
     @ ''"netudpcnt": %lld, ''
     @ ''"nettcpcon": %lld, ''
     @ ''"rchits": %lld, ''
     @ ''"rcmiss": %lld, ''
     @ ''"rcnocache": %lld}''\<close>

definition json_print_NFS :: printer where
  "json_print_NFS env flags hp ss ps nact op =
     put_line op fmt_NFS
       [A_str hp, A_long (ns_rpccnt (nfs_server (ss_nfs ss))),
        A_long (ns_rpcread (nfs_server (ss_nfs ss))),
        A_long (ns_rpcwrite (nfs_server (ss_nfs ss))),
        A_long (ns_nrbytes (nfs_server (ss_nfs ss))),
        A_long (ns_nwbytes (nfs_server (ss_nfs ss))),
        A_long (ns_rpcbadfmt (nfs_server (ss_nfs ss))),
        A_long (ns_rpcbadaut (nfs_server (ss_nfs ss))),
        A_long (ns_rpcbadcln (nfs_server (ss_nfs ss))),
        A_long (ns_netcnt (nfs_server (ss_nfs ss))),
        A_long (ns_nettcpcnt (nfs_server (ss_nfs ss))),
        A_long (ns_netudpcnt (nfs_server (ss_nfs ss))),
        A_long (ns_nettcpcon (nfs_server (ss_nfs ss))),
        A_long (ns_rchits (nfs_server (ss_nfs ss))), A_long (ns_rcmiss (nfs_server (ss_nfs ss))),
        A_long (ns_rcnoca (nfs_server (ss_nfs ss)))]"

definition fmt_NET_GENERAL :: string where
  \<open>fmt_NET_GENERAL =
     '', "NET_GENERAL": {''
     @ ''"rpacketsTCP": %lld, ''
     @ ''"spacketsTCP": %lld, ''
     @ ''"inerrTCP": %lld, ''
     @ ''"oresetTCP": %lld, ''
     @ ''"activeOpensTCP": %lld, ''
     @ ''"passiveOpensTCP": %lld, ''
     @ ''"retransSegsTCP": %lld, ''
     @ ''"noportUDP": %lld, ''
     @ ''"inerrUDP": %lld, ''
     @ ''"rpacketsUDP": %lld, ''
     @ ''"spacketsUDP": %lld, ''
     @ ''"rpacketsIP": %lld, ''
     @ ''"spacketsIP": %lld, ''
     @ ''"dpacketsIP": %lld, ''
     @ ''"fpacketsIP": %lld, ''
     @ ''"icmpi" : %lld, ''
     @ ''"icmpo" : %lld}''\<close>

definition fmt_NET :: string where
  \<open>fmt_NET =
     ''{"name": "%.19s", ''
     @ ''"rpack": %lld, ''
     @ ''"rbyte": %lld, ''
     @ ''"rerrs": %lld, ''
     @ ''"rdrops": %lld, ''
     @ ''"spack": %lld, ''
     @ ''"sbyte": %lld, ''
     @ ''"serrs": %lld, ''
     @ ''"sdrops": %lld, ''
     @ ''"speed": "%ld", ''
     @ ''"coll": %lld, ''
     @ ''"multi": %lld, ''
     @ ''"duplex": %d}''\<close>

definition json_print_NET :: printer where
  "json_print_NET env flags hp ss ps nact op =
     and_then (put_line op fmt_NET_GENERAL
       [A_long (tcp_InSegs (net_tcp (ss_net ss))), A_long (tcp_OutSegs (net_tcp (ss_net ss))),
        A_long (tcp_InErrs (net_tcp (ss_net ss))), A_long (tcp_OutRsts (net_tcp (ss_net ss))),
        A_long (tcp_ActiveOpens (net_tcp (ss_net ss))),
        A_long (tcp_PassiveOpens (net_tcp (ss_net ss))),
        A_long (tcp_RetransSegs (net_tcp (ss_net ss))),
        A_long (udp4_NoPorts (net_udpv4 (ss_net ss))),
        A_long (udp4_InErrors (net_udpv4 (ss_net ss))),
        A_long ((udp4_InDatagrams (net_udpv4 (ss_net ss))) + (udp6_Udp6InDatagrams (net_udpv6 (ss_net ss)))),
        A_long ((udp4_OutDatagrams (net_udpv4 (ss_net ss))) + (udp6_Udp6OutDatagrams (net_udpv6 (ss_net ss)))),
        A_long ((ip4_InReceives (net_ipv4 (ss_net ss))) + (ip6_Ip6InReceives (net_ipv6 (ss_net ss)))),
        A_long ((ip4_OutRequests (net_ipv4 (ss_net ss))) + (ip6_Ip6OutRequests (net_ipv6 (ss_net ss)))),
        A_long ((ip4_InDelivers (net_ipv4 (ss_net ss))) + (ip6_Ip6InDelivers (net_ipv6 (ss_net ss)))),
        A_long ((ip4_ForwDatagrams (net_ipv4 (ss_net ss))) + (ip6_Ip6OutForwDatagrams (net_ipv6 (ss_net ss)))),
        A_long ((icmp4_InMsgs (net_icmpv4 (ss_net ss))) + (icmp6_Icmp6InMsgs (net_icmpv6 (ss_net ss)))),
        A_long ((icmp4_OutMsgs (net_icmpv4 (ss_net ss))) + (icmp6_Icmp6OutMsgs (net_icmpv6 (ss_net ss))))]) (\<lambda>op.
     array_section hp (name_loop if_name (\<lambda>e op.
       put_line op fmt_NET
         [A_str (if_name e), A_long (if_rpack e), A_long (if_rbyte e), A_long (if_rerrs e),
          A_long (if_rdrop e), A_long (if_spack e), A_long (if_sbyte e), A_long (if_serrs e),
          A_long (if_sdrop e), A_long (if_speed e), A_long (if_scollis e), A_long (if_rmultic e),
          A_int (if_duplex e)]) 0 (intf_intf (ss_intf ss))) op)"

definition fmt_IFB :: string where
  \<open>fmt_IFB =
     ''{"ibname": "%.19s", ''
     @ ''"portnr": "%hd", ''
     @ ''"lanes": "%hd", ''
     @ ''"maxrate": %lld, ''
     @ ''"rcvb": %lld, ''
     @ ''"sndb": %lld, ''
     @ ''"rcvp": %lld, ''
     @ ''"sndp": %lld}''\<close>

definition json_print_IFB :: printer where
  "json_print_IFB env flags hp ss ps nact op =
     array_section hp (idx_loop (\<lambda>i op. and_then (at (ifb_ifb (ss_ifb ss)) i) (\<lambda>e.
       put_line op fmt_IFB
         [A_str (ib_ibname e), A_int (ib_portnr e), A_int (ib_lanes e), A_long (ib_rate e),
          A_long (ib_rcvb e), A_long (ib_sndb e), A_long (ib_rcvp e), A_long (ib_sndp e)])) 0 (nat (sint (ifb_nrports (ss_ifb ss))))) op"

definition fmt_NUM :: string where
  \<open>fmt_NUM =
     ''{"frag": "%f", ''
     @ ''"totmem": %lld, ''
     @ ''"freemem": %lld, ''
     @ ''"active": %lld, ''
     @ ''"inactive": %lld, ''
     @ ''"filepage": %lld, ''
     @ ''"dirtymem": %lld, ''
     @ ''"slabmem": %lld, ''
     @ ''"slabreclaim": %lld, ''
     @ ''"shmem": %lld, ''
     @ ''"tothp": %lld}''\<close>

definition json_print_NUM :: printer where
  "json_print_NUM env flags hp ss ps nact op =
     array_section hp (idx_loop (\<lambda>i op. and_then (at (memnuma_numa (ss_memnuma ss)) i) (\<lambda>e.
       put_line op fmt_NUM
         [A_dbl (mul_frag env (mn_frag e)), A_long ((mn_totmem e) * (ucast (pagesize env))),
          A_long ((mn_freemem e) * (ucast (pagesize env))),
          A_long ((mn_active e) * (ucast (pagesize env))),
          A_long ((mn_inactive e) * (ucast (pagesize env))),
          A_long ((mn_filepage e) * (ucast (pagesize env))),
          A_long ((mn_dirtymem e) * (ucast (pagesize env))),
          A_long ((mn_slabmem e) * (ucast (pagesize env))),
          A_long ((mn_slabreclaim e) * (ucast (pagesize env))),
          A_long ((mn_shmem e) * (ucast (pagesize env))),
          A_long ((mn_tothp e) * (mem_hugepagesz (ss_mem ss)))])) 0 (nat (sint (memnuma_nrnuma (ss_memnuma ss))))) op"

definition fmt_NUC :: string where
  \<open>fmt_NUC =
     ''{"numanr": "%d", ''
     @ ''"nrcpu": %lld, ''
     @ ''"stime": %lld, ''
     @ ''"utime": %lld, ''
     @ ''"ntime": %lld, ''
     @ ''"itime": %lld, ''
     @ ''"wtime": %lld, ''
     @ ''"Itime": %lld, ''
     @ ''"Stime": %lld, ''
     @ ''"steal": %lld, ''
     @ ''"guest": %lld}''\<close>

definition json_print_NUC :: printer where
  "json_print_NUC env flags hp ss ps nact op =
     array_section hp (idx_loop (\<lambda>i op. and_then (at (cpunuma_numa (ss_cpunuma ss)) i) (\<lambda>e.
       put_line op fmt_NUC
         [A_int (cn_numanr e), A_long (cn_nrcpu e), A_long (cn_stime e), A_long (cn_utime e),
          A_long (cn_ntime e), A_long (cn_itime e), A_long (cn_wtime e), A_long (cn_Itime e),
          A_long (cn_Stime e), A_long (cn_steal e), A_long (cn_guest e)])) 0 (nat (sint (cpunuma_nrnuma (ss_cpunuma ss))))) op"

definition fmt_LLC :: string where
  \<open>fmt_LLC =
     ''{"LLC": "%3d", ''
     @ ''"occupancy": "%3.1f", ''
     @ ''"mbm_total": "%lld", ''
     @ ''"mbm_local": %lld}''\<close>

definition json_print_LLC :: printer where
  "json_print_LLC env flags hp ss ps nact op =
     array_section hp (idx_loop (\<lambda>i op. and_then (at (llc_perllc (ss_llc ss)) i) (\<lambda>e.
       put_line op fmt_LLC
         [A_int (lc_id e), A_dbl (mul_occ env (lc_occupancy e)), A_long (lc_mbm_total e),
          A_long (lc_mbm_local e)])) 0 (nat (sint (llc_nrllcs (ss_llc ss))))) op"

section \<open>Process-level statistics\<close>

text \<open>
  The state letters and the exit code that \<open>json_print_PRG\<close> derives from \<open>excode\<close>: bit 31 marks a new
  process, the low byte a signal (bit 7: with a core dump), the next byte the exit code.
\<close>

definition exit_status :: "32 word \<Rightarrow> bytes \<times> 32 word" where
  "exit_status excode =
     (let st0 = (if excode AND NOT 0x7FFFFFFF \<noteq> 0 then CHR ''N'' else CHR ''-'')
      in if excode AND 0xFF \<noteq> 0
         then ([st0, if excode AND 0x80 \<noteq> 0 then CHR ''C'' else CHR ''S'', NUL], (excode AND 0x7F) + 256)
         else ([st0, CHR ''E'', NUL], signed_drop_bit 8 excode AND 0xFF))"

definition fmt_PRG :: string where
  \<open>fmt_PRG =
     ''{"pid": %d, ''
     @ ''"name": "(%.19s)", ''
     @ ''"state": "%c", ''
     @ ''"ruid": %d, ''
     @ ''"rgid": %d, ''
     @ ''"tgid": %d, ''
     @ ''"nthr": %d, ''
     @ ''"st": "%s", ''
     @ ''"exitcode": %d, ''
     @ ''"btime": "%ld", ''
     @ ''"cmdline": "(%.130s)", ''
     @ ''"ppid": %d, ''
     @ ''"nthrrun": %d, ''
     @ ''"nthrslpi": %d, ''
     @ ''"nthrslpu": %d, ''
     @ ''"euid": %d, ''
     @ ''"egid": %d, ''
     @ ''"elaps": "%ld", ''
     @ ''"isproc": %d, ''
     @ ''"cid": "%.19s"}''\<close>

definition json_print_PRG :: printer where
  "json_print_PRG env flags hp ss ps nact op =
     array_section hp (task_loop (\<lambda>p op.
       let (st, exitcode) = exit_status (tg_excode (ts_gen p))
       in and_then (at (tg_container (ts_gen p)) 0) (\<lambda>c.
          let cid = (if c \<noteq> NUL then tg_container (ts_gen p) else ''-'' @ [NUL])
          in put_line op fmt_PRG
            [A_int (tg_pid (ts_gen p)), A_str (tg_name (ts_gen p)), A_chr (tg_state (ts_gen p)),
             A_int (tg_ruid (ts_gen p)), A_int (tg_rgid (ts_gen p)), A_int (tg_tgid (ts_gen p)),
             A_int (tg_nthr (ts_gen p)), A_str st, A_int exitcode, A_long (tg_btime (ts_gen p)),
             A_str (tg_cmdline (ts_gen p)), A_int (tg_ppid (ts_gen p)),
             A_int (tg_nthrrun (ts_gen p)), A_int (tg_nthrslpi (ts_gen p)),
             A_int (tg_nthrslpu (ts_gen p)), A_int (tg_euid (ts_gen p)),
             A_int (tg_egid (ts_gen p)), A_long (tg_elaps (ts_gen p)),
             A_int (if tg_isproc (ts_gen p) \<noteq> 0 then 1 else 0), A_str cid])) 0 nact ps) op"

definition fmt_PRC :: string where
  \<open>fmt_PRC =
     ''{"pid": %d, ''
     @ ''"utime": %lld, ''
     @ ''"stime": %lld, ''
     @ ''"nice": %d, ''
     @ ''"prio": %d, ''
     @ ''"curcpu": %d, ''
     @ ''"tgid": %d, ''
     @ ''"isproc": %d, ''
     @ ''"rundelay": %lld, ''
     @ ''"blkdelay": %lld, ''
     @ ''"sleepavg": %d}''\<close>

definition json_print_PRC :: printer where
  "json_print_PRC env flags hp ss ps nact op =
     array_section hp (task_loop (\<lambda>p op.
       and_then (c_sdiv (tc_rundelay (ts_cpu p)) 1000000) (\<lambda>rundelay.
       and_then (c_sdiv (tc_blkdelay (ts_cpu p) * 1000) (ucast (hertz env))) (\<lambda>blkdelay.
       put_line op fmt_PRC
         [A_int (tg_pid (ts_gen p)), A_long (tc_utime (ts_cpu p)), A_long (tc_stime (ts_cpu p)),
          A_int (tc_nice (ts_cpu p)), A_int (tc_prio (ts_cpu p)), A_int (tc_curcpu (ts_cpu p)),
          A_int (tg_tgid (ts_gen p)), A_int (if tg_isproc (ts_gen p) \<noteq> 0 then 1 else 0),
          A_long rundelay, A_long blkdelay, A_int (tc_sleepavg (ts_cpu p))]))) 0 nact ps) op"

definition fmt_PRM :: string where
  \<open>fmt_PRM =
     ''{"pid": %d, ''
     @ ''"vmem": %lld, ''
     @ ''"rmem": %lld, ''
     @ ''"vexec": %lld, ''
     @ ''"vgrow": %lld, ''
     @ ''"rgrow": %lld, ''
     @ ''"minflt": %lld, ''
     @ ''"majflt": %lld, ''
     @ ''"vlibs": %lld, ''
     @ ''"vdata": %lld, ''
     @ ''"vstack": %lld, ''
     @ ''"vlock": %lld, ''
     @ ''"vswap": %lld, ''
     @ ''"pmem": %lld}''\<close>

definition json_print_PRM :: printer where
  "json_print_PRM env flags hp ss ps nact op =
     array_section hp (task_loop (\<lambda>p op.
       put_line op fmt_PRM
         [A_int (tg_pid (ts_gen p)), A_long (tm_vmem (ts_mem p)), A_long (tm_rmem (ts_mem p)),
          A_long (tm_vexec (ts_mem p)), A_long (tm_vgrow (ts_mem p)),
          A_long (tm_rgrow (ts_mem p)), A_long (tm_minflt (ts_mem p)),
          A_long (tm_majflt (ts_mem p)), A_long (tm_vlibs (ts_mem p)),
          A_long (tm_vdata (ts_mem p)), A_long (tm_vstack (ts_mem p)),
          A_long (tm_vlock (ts_mem p)), A_long (tm_vswap (ts_mem p)),
          A_long (if tm_pmem (ts_mem p) = - 1 then 0 else tm_pmem (ts_mem p))]) 0 nact ps) op"

definition fmt_PRD :: string where
  \<open>fmt_PRD =
     ''{"pid": %d, ''
     @ ''"rio": %lld, ''
     @ ''"rsz": %lld, ''
     @ ''"wio": %lld, ''
     @ ''"wsz": %lld, ''
     @ ''"cwsz": %lld}''\<close>

definition json_print_PRD :: printer where
  "json_print_PRD env flags hp ss ps nact op =
     array_section hp (task_loop (\<lambda>p op.
       put_line op fmt_PRD
         [A_int (tg_pid (ts_gen p)), A_long (td_rio (ts_dsk p)), A_long (td_rsz (ts_dsk p)),
          A_long (td_wio (ts_dsk p)), A_long (td_wsz (ts_dsk p)), A_long (td_cwsz (ts_dsk p))]) 0 nact ps) op"

definition fmt_PRN :: string where
  \<open>fmt_PRN =
     ''{"pid": %d, ''
     @ ''"tcpsnd": "%lld", ''
     @ ''"tcpssz": "%lld", ''
     @ ''"tcprcv": "%lld", ''
     @ ''"tcprsz": "%lld", ''
     @ ''"udpsnd": "%lld", ''
     @ ''"udpssz": "%lld", ''
     @ ''"udprcv": "%lld", ''
     @ ''"udprsz": "%lld"}''\<close>

definition json_print_PRN :: printer where
  "json_print_PRN env flags hp ss ps nact op =
     (if flags AND c_NETATOP (aflags env) = 0 then Inr op
      else
       array_section hp (task_loop (\<lambda>p op.
         put_line op fmt_PRN
           [A_int (tg_pid (ts_gen p)), A_long (tn_tcpsnd (ts_net p)), A_long (tn_tcpssz (ts_net p)),
            A_long (tn_tcprcv (ts_net p)), A_long (tn_tcprsz (ts_net p)),
            A_long (tn_udpsnd (ts_net p)), A_long (tn_udpssz (ts_net p)),
            A_long (tn_udprcv (ts_net p)), A_long (tn_udprsz (ts_net p))]) 0 nact ps) op)"

definition fmt_PRE :: string where
  \<open>fmt_PRE =
     ''{"pid": %d, ''
     @ ''"gpustate": "%c", ''
     @ ''"nrgpus": %d, ''
     @ ''"gpulist": "%x", ''
     @ ''"gpubusy": %d, ''
     @ ''"membusy": %d, ''
     @ ''"memnow": %lld, ''
     @ ''"memcum": %lld, ''
     @ ''"sample": %lld}''\<close>

definition json_print_PRE :: printer where
  "json_print_PRE env flags hp ss ps nact op =
     (if flags AND c_GPUSTAT (aflags env) = 0 then Inr op
      else
       array_section hp (task_loop (\<lambda>p op.
         put_line op fmt_PRE
           [A_int (tg_pid (ts_gen p)),
            A_chr (if tp_state (ts_gpu p) = NUL then CHR ''N'' else tp_state (ts_gpu p)),
            A_int (tp_nrgpus (ts_gpu p)), A_int (tp_gpulist (ts_gpu p)),
            A_int (tp_gpubusy (ts_gpu p)), A_int (tp_membusy (ts_gpu p)),
            A_long (tp_memnow (ts_gpu p)), A_long (tp_memcum (ts_gpu p)),
            A_long (tp_sample (ts_gpu p))]) 0 nact ps) op)"

end
