(* ===== verification/JsonProofs.thy ===== *)
theory JsonProofs
  imports Json
begin

text \<open>
  Every printer of \<open>json.c\<close> takes the JSON automaton from "after a member of the object" to
  "after a member of the object", writes a bounded number of bytes, and neither overruns its line
  buffer nor reads outside the sample.

  The judgement \<open>json_emits a f b n\<close> says: run from a good buffer with room for \<open>n\<close> bytes, \<open>f\<close>
  appends at most \<open>n\<close> bytes that take the automaton from \<open>a\<close> to \<open>b\<close>. Its rules are the
  sequential rules of a Hoare logic, one rule for each way the printers write, and one for each
  form of loop; a printer's proof applies them and checks its format with the static checker.
\<close>

section \<open>The judgement\<close>

definition json_emits :: "astate \<Rightarrow> (output_t \<Rightarrow> output_t res) \<Rightarrow> astate \<Rightarrow> nat \<Rightarrow> bool" where
  "json_emits a f b n \<longleftrightarrow>
     (\<forall>st. gam a st \<longrightarrow> ob.emits f (\<lambda>t. \<exists>st'. jrun st t = Some st' \<and> gam b st') n)"

lemma json_emitsI:
  "(\<And>st. gam a st \<Longrightarrow> ob.emits f (\<lambda>t. \<exists>st'. jrun st t = Some st' \<and> gam b st') n) \<Longrightarrow> json_emits a f b n"
  unfolding json_emits_def by blast

lemma json_emitsD:
  "json_emits a f b n \<Longrightarrow> gam a st \<Longrightarrow> ob.emits f (\<lambda>t. \<exists>st'. jrun st t = Some st' \<and> gam b st') n"
  unfolding json_emits_def by blast

lemma json_emits_seq:
  assumes "json_emits a f b m" "json_emits b g c n"
  shows "json_emits a (\<lambda>op. and_then (f op) g) c (m + n)"
proof (rule json_emitsI)
  fix st assume "gam a st"
  from json_emitsD[OF assms(1) this] have f: "ob.emits f (\<lambda>t. \<exists>st'. jrun st t = Some st' \<and> gam b st') m" .
  show "ob.emits (\<lambda>op. and_then (f op) g) (\<lambda>t. \<exists>st'. jrun st t = Some st' \<and> gam c st') (m + n)"
  proof (rule ob.emits_seq[OF f])
    fix t assume "\<exists>st'. jrun st t = Some st' \<and> gam b st'"
    then obtain st' where st': "jrun st t = Some st'" "gam b st'" by blast
    from json_emitsD[OF assms(2) st'(2)]
    have "ob.emits g (\<lambda>u. \<exists>st''. jrun st' u = Some st'' \<and> gam c st'') n" .
    then show "ob.emits g (\<lambda>u. \<exists>st''. jrun st (t @ u) = Some st'' \<and> gam c st'') n"
      by (simp add: jrun_append st')
  qed
qed

lemma json_emits_skip: "(\<And>st. gam a st \<Longrightarrow> gam b st) \<Longrightarrow> json_emits a Inr b n"
  by (auto intro!: json_emitsI ob.emits_skip)

lemma json_emits_conseq:
  assumes "json_emits a f b m" "\<And>st. gam a' st \<Longrightarrow> gam a st" "\<And>st. gam b st \<Longrightarrow> gam b' st" "m \<le> n"
  shows "json_emits a' f b' n"
proof (rule json_emitsI)
  fix st assume "gam a' st"
  from json_emitsD[OF assms(1) assms(2)[OF this]]
  have "ob.emits f (\<lambda>t. \<exists>st'. jrun st t = Some st' \<and> gam b st') m" .
  then show "ob.emits f (\<lambda>t. \<exists>st'. jrun st t = Some st' \<and> gam b' st') n"
    by (rule ob.emits_mono) (use assms(3,4) in blast)+
qed

section \<open>Rules for the ways of writing\<close>

lemma output_samp_prefix:
  "length bs \<le> length buf \<Longrightarrow> take (length bs) buf = bs \<Longrightarrow> out_type op = OUTPUT_BUF \<Longrightarrow>
     output_samp op buf (int (length bs)) = output_samp op bs (int (length bs))"
  by (auto simp: output_samp_def output_buf_def copy_in_def Let_def split: option.splits)

lemma json_emits_bytes:
  assumes "\<And>st. gam a st \<Longrightarrow> \<exists>st'. jrun st t = Some st' \<and> gam b st'"
    and "length t \<le> n" "length t \<le> OUTBUF_DEF_SIZE" "length t \<le> length buf" "take (length t) buf = t"
  shows "json_emits a (\<lambda>op. output_samp op buf (int (length t))) b n"
proof (rule json_emitsI)
  fix st assume "gam a st"
  then have "ob.emits (\<lambda>op. output_samp op t (int (length t)))
      (\<lambda>t. \<exists>st'. jrun st t = Some st' \<and> gam b st') n"
    using assms by (intro ob.emits_chunk) auto
  then show "ob.emits (\<lambda>op. output_samp op buf (int (length t)))
      (\<lambda>t. \<exists>st'. jrun st t = Some st' \<and> gam b st') n"
    unfolding ob.emits_def using output_samp_prefix[OF assms(4,5)] by (simp add: out_ok_def)
qed

lemma json_emits_line:
  assumes "format_check a fmt ks = Some (b, n)" "list_all2 has_kind xs ks" "n < LINE_BUF_SIZE"
  shows "json_emits a (\<lambda>op. put_line op fmt xs) b n"
proof (rule json_emitsI)
  fix st assume "gam a st"
  from format_check_sound[OF assms(1,2) this] obtain t st' where
    t: "c_format fmt xs = Inr t" "length t \<le> n" and st': "jrun st t = Some st'" "gam b st'" by blast
  have run: "(\<lambda>op. put_line op fmt xs)
      = (\<lambda>op. output_samp op (take (LINE_BUF_SIZE - 1) t @ [NUL]) (int (length t)))"
    by (simp add: put_line_def c_snprintf_def t(1))
  have "ob.emits (\<lambda>op. output_samp op t (int (length t))) (\<lambda>t. \<exists>st'. jrun st t = Some st' \<and> gam b st') n"
    using t st' assms(3) by (intro ob.emits_chunk) (auto simp: OUTBUF_DEF_SIZE_def LINE_BUF_SIZE_def)
  then show "ob.emits (\<lambda>op. put_line op fmt xs) (\<lambda>t. \<exists>st'. jrun st t = Some st' \<and> gam b st') n"
    unfolding run ob.emits_def using output_samp_prefix[of t "take (LINE_BUF_SIZE - 1) t @ [NUL]"] t(2) assms(3)
    by (simp add: out_ok_def LINE_BUF_SIZE_def)
qed

text \<open>Literal text, checked by running the abstract automaton over it.\<close>

fun arun :: "astate \<Rightarrow> string \<Rightarrow> astate option" where
  "arun a [] = Some a"
| "arun a (c # cs) = (case alit a c of None \<Rightarrow> None | Some a' \<Rightarrow> arun a' cs)"

lemma arun_sound: "arun a s = Some b \<Longrightarrow> gam a st \<Longrightarrow> \<exists>st'. jrun st s = Some st' \<and> gam b st'"
proof (induction s arbitrary: a st)
  case (Cons c s)
  then obtain a' where a': "alit a c = Some a'" "arun a' s = Some b" by (auto split: option.splits)
  with alit_sound[OF a'(1) Cons.prems(2)] Cons.IH[OF a'(2)] show ?case by auto
qed simp

lemma json_emits_lit:
  assumes "arun a s = Some b" "length s \<le> n" "length s \<le> OUTBUF_DEF_SIZE"
  shows "json_emits a (\<lambda>op. put_lit op s) b n"
  unfolding put_lit_def by (rule json_emits_bytes) (use assms arun_sound in auto)

text \<open>The quoted label that a section starts with.\<close>

definition header_ok :: "bytes \<Rightarrow> bool" where
  "header_ok hp \<longleftrightarrow> has_kind (A_str hp) (K_quoted 5)"

lemma json_emits_br:
  assumes "header_ok hp"
  shows "json_emits (ANum [FObj]) (\<lambda>op. put_br op hp) (AS ([FArr, FObj], JValOrEnd)) 10"
proof (rule json_emitsI)
  fix st assume st: "gam (ANum [FObj]) st"
  have "format_check (ANum [FObj]) fmt_br [K_quoted 5] = Some (AS ([FArr, FObj], JValOrEnd), 10)"
    by code_simp
  from format_check_sound[OF this, of "[A_str hp]" st] st assms obtain t where
    t: "c_format fmt_br [A_str hp] = Inr t" "length t \<le> 10"
    and st': "jrun st t = Some ([FArr, FObj], JValOrEnd)" by (auto simp: header_ok_def)
  have run: "(\<lambda>op. put_br op hp) = (\<lambda>op. output_samp op (t @ [NUL]) (int (length t)))"
    using t by (simp add: put_br_def c_sprintf_def LEN_HP_SIZE_def)
  have "json_emits (AS st) (\<lambda>op. output_samp op (t @ [NUL]) (int (length t))) (AS ([FArr, FObj], JValOrEnd)) 10"
    using st' t by (intro json_emits_bytes) (simp_all add: OUTBUF_DEF_SIZE_def)
  from json_emitsD[OF this, of st]
  show "ob.emits (\<lambda>op. put_br op hp) (\<lambda>t. \<exists>st'. jrun st t = Some st' \<and> gam (AS ([FArr, FObj], JValOrEnd)) st') 10"
    unfolding run by simp
qed

section \<open>Rules for the loops\<close>

text \<open>Between two rounds: nothing has been written yet, or an element has.\<close>

definition between :: "nat \<Rightarrow> frame list \<Rightarrow> astate" where
  "between i stk = (if i = 0 then AS (FArr # stk, JValOrEnd) else AS (FArr # stk, JAfter))"

lemma between_AArr: "gam (between i stk) st \<Longrightarrow> gam (AArr stk) st"
  by (auto simp: between_def gam_def split: if_splits)

lemma json_emits_comma: "json_emits (between i stk) (comma i) (AElem stk) 2"
proof (cases "i = 0")
  case True
  then have "comma i = Inr" by (simp add: comma_def fun_eq_iff)
  then show ?thesis using True by (auto simp: between_def gam_def intro!: json_emits_skip)
next
  case False
  have "arun (AS (FArr # stk, JAfter)) '', '' = Some (AS (FArr # stk, JVal))"
    by (simp add: alit_def after_step_def is_ws_def)
  then have "json_emits (AS (FArr # stk, JAfter)) (\<lambda>op. put_lit op '', '') (AS (FArr # stk, JVal)) 2"
    by (rule json_emits_lit) (simp_all add: OUTBUF_DEF_SIZE_def)
  then have "json_emits (AS (FArr # stk, JAfter)) (\<lambda>op. put_lit op '', '') (AElem stk) 2"
    by (rule json_emits_conseq) (auto simp: gam_def)
  then show ?thesis using False by (simp add: comma_def[abs_def] between_def)
qed

abbreviation elem_ok :: "frame list \<Rightarrow> (output_t \<Rightarrow> output_t res) \<Rightarrow> nat \<Rightarrow> bool" where
  "elem_ok stk f L \<equiv> json_emits (AElem stk) f (AS (FArr # stk, JAfter)) L"

lemma json_emits_round:
  assumes "elem_ok stk f L" "json_emits (between (Suc i) stk) g (AArr stk) n"
    and "L + 2 + n = N"
  shows "json_emits (between i stk) (\<lambda>op. and_then (comma i op) (\<lambda>op. and_then (f op) g)) (AArr stk) N"
proof -
  have "json_emits (between i stk) (\<lambda>op. and_then (comma i op) (\<lambda>op. and_then (f op) g)) (AArr stk) (2 + (L + n))"
    using assms(1,2) by (intro json_emits_seq[OF json_emits_comma] json_emits_seq) (auto simp: between_def)
  moreover have "2 + (L + n) = N" using assms(3) by simp
  ultimately show ?thesis by simp
qed

lemma json_emits_idx_loop:
  assumes "\<And>j. i \<le> j \<Longrightarrow> j < i + k \<Longrightarrow> elem_ok stk (body j) L"
  shows "json_emits (between i stk) (idx_loop body i k) (AArr stk) (k * (L + 2))"
  using assms
proof (induction k arbitrary: i)
  case 0
  have "idx_loop body i 0 = Inr" by (simp add: fun_eq_iff)
  then show ?case by (auto intro!: json_emits_skip between_AArr)
next
  case (Suc k)
  have "json_emits (between (Suc i) stk) (idx_loop body (Suc i) k) (AArr stk) (k * (L + 2))"
    by (rule Suc.IH) (use Suc.prems in auto)
  moreover have "idx_loop body i (Suc k)
      = (\<lambda>op. and_then (comma i op) (\<lambda>op. and_then (body i op) (idx_loop body (Suc i) k)))"
    by (simp add: fun_eq_iff)
  ultimately show ?case using Suc.prems[of i] by (auto intro: json_emits_round)
qed

text \<open>A terminated array: every name is a string, and one of them is empty.\<close>

definition names_ok :: "('e \<Rightarrow> bytes) \<Rightarrow> 'e list \<Rightarrow> bool" where
  "names_ok name es \<longleftrightarrow> (\<forall>e \<in> set es. terminated (name e) \<and> clean (cstr (name e)))
     \<and> (\<exists>e \<in> set es. cstr (name e) = [])"

lemma names_ok_Cons:
  "names_ok name (e # es) \<Longrightarrow> cstr (name e) \<noteq> [] \<Longrightarrow> names_ok name es"
  by (auto simp: names_ok_def)

lemma json_emits_name_loop:
  assumes "names_ok name es" "\<And>e. e \<in> set es \<Longrightarrow> elem_ok stk (body e) L"
  shows "json_emits (between i stk) (name_loop name body i es) (AArr stk) (length es * (L + 2))"
  using assms
proof (induction es arbitrary: i)
  case Nil
  then show ?case by (simp add: names_ok_def)
next
  case (Cons e es)
  from Cons.prems(1) have "terminated (name e)" by (simp add: names_ok_def)
  then obtain c cs where c: "name e = c # cs" by (cases "name e") auto
  show ?case
  proof (cases "c = NUL")
    case True
    then have "name_loop name body i (e # es) = Inr" using c by (simp add: fun_eq_iff)
    then show ?thesis by (auto intro!: json_emits_skip between_AArr)
  next
    case False
    have "json_emits (between (Suc i) stk) (name_loop name body (Suc i) es) (AArr stk) (length es * (L + 2))"
      by (rule Cons.IH) (use Cons.prems names_ok_Cons[OF Cons.prems(1)] c False in auto)
    moreover have "name_loop name body i (e # es)
        = (\<lambda>op. and_then (comma i op) (\<lambda>op. and_then (body e op) (name_loop name body (Suc i) es)))"
      using c False by (simp add: fun_eq_iff)
    ultimately show ?thesis using json_emits_round[OF Cons.prems(2)[of e]] by simp
  qed
qed

text \<open>
  The task loop writes a correct array when the first task is written. (When the first one is
  skipped and a later one is not, a comma comes first; see the properties.)
\<close>

lemma json_emits_task_loop:
  assumes "k \<le> length ps" "\<And>p. p \<in> set ps \<Longrightarrow> elem_ok stk (body p) L"
    and "i = 0 \<Longrightarrow> 0 < k \<Longrightarrow> \<not> skipped (hd ps)"
  shows "json_emits (between i stk) (task_loop body i k ps) (AArr stk) (k * (L + 2))"
  using assms
proof (induction k arbitrary: i ps)
  case 0
  have "task_loop body i 0 ps = Inr" by (simp add: fun_eq_iff)
  then show ?case by (auto intro!: json_emits_skip between_AArr)
next
  case (Suc k)
  from Suc.prems(1) obtain p qs where ps: "ps = p # qs" by (cases ps) auto
  have rest: "json_emits (between (Suc i) stk) (task_loop body (Suc i) k qs) (AArr stk) (k * (L + 2))"
    by (rule Suc.IH) (use Suc.prems ps in auto)
  show ?case
  proof (cases "skipped p")
    case True
    with Suc.prems(3) ps have "i \<noteq> 0" by auto
    then have "between (Suc i) stk = between i stk" by (simp add: between_def)
    moreover from True have "task_loop body i (Suc k) ps = task_loop body (Suc i) k qs"
      by (simp add: ps fun_eq_iff)
    ultimately show ?thesis using rest by (auto intro: json_emits_conseq)
  next
    case False
    then have "task_loop body i (Suc k) ps
        = (\<lambda>op. and_then (comma i op) (\<lambda>op. and_then (body p op) (task_loop body (Suc i) k qs)))"
      by (simp add: ps fun_eq_iff)
    moreover have "json_emits (between i stk)
        (\<lambda>op. and_then (comma i op) (\<lambda>op. and_then (body p op) (task_loop body (Suc i) k qs))) (AArr stk)
        (Suc k * (L + 2))"
      by (rule json_emits_round[OF Suc.prems(2) rest]) (use ps in auto)
    ultimately show ?thesis using ps by metis
  qed
qed

text \<open>A whole array section of the top-level object.\<close>

abbreviation section_ok :: "(output_t \<Rightarrow> output_t res) \<Rightarrow> nat \<Rightarrow> bool" where
  "section_ok f n \<equiv> json_emits (ANum [FObj]) f (ANum [FObj]) n"

lemma after_obj: "gam (AS ([FObj], JAfter)) st \<Longrightarrow> gam (ANum [FObj]) st"
  by (auto simp: gam_def)

lemma json_emits_array_section:
  assumes "header_ok hp" "json_emits (between 0 [FObj]) loop (AArr [FObj]) n"
  shows "section_ok (array_section hp loop) (n + 11)"
proof -
  have "json_emits (AArr [FObj]) (\<lambda>op. put_lit op '']'') (AS ([FObj], JAfter)) 1"
    by (rule json_emits_lit) (simp_all add: alit_def OUTBUF_DEF_SIZE_def)
  with assms have "json_emits (ANum [FObj]) (array_section hp loop) (AS ([FObj], JAfter)) (10 + (n + 1))"
    unfolding array_section_def[abs_def]
    by (intro json_emits_seq[OF json_emits_br[OF assms(1)]] json_emits_seq) (auto simp: between_def)
  then show ?thesis by (rule json_emits_conseq) (auto intro: after_obj)
qed

lemma section_line:
  assumes "format_check (ANum [FObj]) fmt ks = Some (AS ([FObj], JAfter), n)"
    and "list_all2 has_kind xs ks" "n < LINE_BUF_SIZE"
  shows "section_ok (\<lambda>op. put_line op fmt xs) n"
  using json_emits_line[OF assms] by (rule json_emits_conseq) (auto intro: after_obj)


section \<open>Well-formed samples\<close>

text \<open>
  What the printers rely on and do not check: counts that stay within their arrays, arrays that an
  empty name ends, strings that are terminated and have no quote, backslash or control character,
  finite numbers below \<open>10^39\<close>, and no division that overflows. \<open>MAX_ROWS\<close> bounds every count;
  with it the whole answer stays below the 1 GiB at which the size of the buffer would overflow.
\<close>

definition MAX_ROWS :: nat where
  "MAX_ROWS = 70000"

definition str_ok :: "bytes \<Rightarrow> bool" where
  "str_ok s \<longleftrightarrow> terminated s \<and> clean (cstr s)"

definition counted :: "int \<Rightarrow> 'e list \<Rightarrow> bool" where
  "counted n es \<longleftrightarrow> nat n \<le> length es \<and> nat n \<le> MAX_ROWS"

definition named :: "('e \<Rightarrow> bytes) \<Rightarrow> 'e list \<Rightarrow> bool" where
  "named name es \<longleftrightarrow> names_ok name es \<and> length es \<le> MAX_ROWS"

definition cpu_ok :: "cpustat \<Rightarrow> bool" where
  "cpu_ok c \<longleftrightarrow> counted (sint (cpu_nrcpu c)) (cpu_cpu c) \<and> cpu_cpu c \<noteq> []
     \<and> fc_maxfreq (cp_freqcnt (hd (cpu_cpu c))) \<noteq> - 1
     \<and> (\<forall>p \<in> set (cpu_cpu c). fc_ticks (cp_freqcnt p) \<noteq> - 1)
     \<and> (\<Sum>p \<leftarrow> take (nat (sint (cpu_nrcpu c))) (cpu_cpu c). fc_ticks (cp_freqcnt p)) \<noteq> - 1
     \<and> dbl_below 39 (cpu_lavg1 c) \<and> dbl_below 39 (cpu_lavg5 c) \<and> dbl_below 39 (cpu_lavg15 c)"

definition psi_ok :: "psi \<Rightarrow> bool" where
  "psi_ok p \<longleftrightarrow> dbl_below 39 (psi_avg10 p) \<and> dbl_below 39 (psi_avg60 p) \<and> dbl_below 39 (psi_avg300 p)"

definition sstat_ok :: "jenv \<Rightarrow> sstat \<Rightarrow> bool" where
  "sstat_ok env ss \<longleftrightarrow> cpu_ok (ss_cpu ss)
     \<and> counted (sint (gpu_nrgpus (ss_gpu ss))) (gpu_gpu (ss_gpu ss))
     \<and> (\<forall>e \<in> set (gpu_gpu (ss_gpu ss)). str_ok (pg_busid e) \<and> str_ok (pg_type e))
     \<and> psi_ok (prs_cpusome (ss_psi ss)) \<and> psi_ok (prs_memsome (ss_psi ss)) \<and> psi_ok (prs_memfull (ss_psi ss))
     \<and> psi_ok (prs_iosome (ss_psi ss)) \<and> psi_ok (prs_iofull (ss_psi ss))
     \<and> named dk_name (dsk_lvm (ss_dsk ss)) \<and> named dk_name (dsk_mdd (ss_dsk ss)) \<and> named dk_name (dsk_dsk (ss_dsk ss))
     \<and> counted (sint (nfm_nrmounts (nfs_nfsmounts (ss_nfs ss)))) (nfm_nfsmnt (nfs_nfsmounts (ss_nfs ss)))
     \<and> (\<forall>e \<in> set (nfm_nfsmnt (nfs_nfsmounts (ss_nfs ss))). str_ok (nm_mountdev e))
     \<and> named if_name (intf_intf (ss_intf ss))
     \<and> counted (sint (ifb_nrports (ss_ifb ss))) (ifb_ifb (ss_ifb ss))
     \<and> (\<forall>e \<in> set (ifb_ifb (ss_ifb ss)). str_ok (ib_ibname e))
     \<and> counted (sint (memnuma_nrnuma (ss_memnuma ss))) (memnuma_numa (ss_memnuma ss))
     \<and> (\<forall>e \<in> set (memnuma_numa (ss_memnuma ss)). dbl_below 39 (mul_frag env (mn_frag e)))
     \<and> counted (sint (cpunuma_nrnuma (ss_cpunuma ss))) (cpunuma_numa (ss_cpunuma ss))
     \<and> counted (sint (llc_nrllcs (ss_llc ss))) (llc_perllc (ss_llc ss))
     \<and> (\<forall>e \<in> set (llc_perllc (ss_llc ss)). dbl_below 39 (mul_occ env (lc_occupancy e)))"

definition tstat_ok :: "tstat \<Rightarrow> bool" where
  "tstat_ok p \<longleftrightarrow> str_ok (tg_name (ts_gen p)) \<and> str_ok (tg_cmdline (ts_gen p))
     \<and> str_ok (tg_container (ts_gen p)) \<and> clean_char (tg_state (ts_gen p))
     \<and> (tp_state (ts_gpu p) = NUL \<or> clean_char (tp_state (ts_gpu p)))"

text \<open>The list of tasks: the first one is not one of those that the printers skip.\<close>

definition tasks_ok :: "jenv \<Rightarrow> tstat list \<Rightarrow> nat \<Rightarrow> bool" where
  "tasks_ok env ps n \<longleftrightarrow> n \<le> length ps \<and> n \<le> MAX_ROWS \<and> (\<forall>p \<in> set ps. tstat_ok p)
     \<and> (0 < n \<longrightarrow> \<not> skipped (hd ps)) \<and> hertz env \<noteq> 0"

section \<open>Sections that are arrays\<close>

lemma section_idx:
  assumes "header_ok hp"
    and "format_check (AElem [FObj]) fmt ks = Some (AS ([FArr, FObj], JAfter), L)" "L < LINE_BUF_SIZE"
    and "counted n es" "\<And>e i. e \<in> set es \<Longrightarrow> list_all2 has_kind (args i e) ks"
  shows "section_ok (array_section hp (idx_loop (\<lambda>i op. and_then (at es i) (\<lambda>e. put_line op fmt (args i e)))
           0 (nat n))) (nat n * (L + 2) + 11)"
proof (rule json_emits_array_section[OF assms(1) json_emits_idx_loop])
  fix j assume "0 \<le> j" "j < 0 + nat n"
  with assms(4) have "j < length es" by (simp add: counted_def)
  then show "elem_ok [FObj] (\<lambda>op. and_then (at es j) (\<lambda>e. put_line op fmt (args j e))) L"
    using json_emits_line[OF assms(2) assms(5) assms(3)] by (simp add: at_def)
qed

lemma section_name:
  assumes "header_ok hp"
    and "format_check (AElem [FObj]) fmt ks = Some (AS ([FArr, FObj], JAfter), L)" "L < LINE_BUF_SIZE"
    and "named name es" "\<And>e. e \<in> set es \<Longrightarrow> str_ok (name e) \<Longrightarrow> list_all2 has_kind (args e) ks"
  shows "section_ok (array_section hp (name_loop name (\<lambda>e op. put_line op fmt (args e)) 0 es))
           (length es * (L + 2) + 11)"
  using assms
  by (intro json_emits_array_section[OF assms(1) json_emits_name_loop] json_emits_line[OF assms(2) assms(5) assms(3)])
     (auto simp: named_def names_ok_def str_ok_def)

lemma section_task:
  assumes "header_ok hp"
    and "format_check (AElem [FObj]) fmt ks = Some (AS ([FArr, FObj], JAfter), L)" "L < LINE_BUF_SIZE"
    and "tasks_ok env ps n" "\<And>p. tstat_ok p \<Longrightarrow> \<exists>as. (\<forall>op. body p op = put_line op fmt as) \<and> list_all2 has_kind as ks"
  shows "section_ok (array_section hp (task_loop body 0 n ps)) (n * (L + 2) + 11)"
proof (rule json_emits_array_section[OF assms(1) json_emits_task_loop])
  fix p assume "p \<in> set ps"
  with assms(4) have "tstat_ok p" by (simp add: tasks_ok_def)
  from assms(5)[OF this] obtain as where "body p = (\<lambda>op. put_line op fmt as)" "list_all2 has_kind as ks"
    by (auto simp: fun_eq_iff)
  with json_emits_line[OF assms(2) _ assms(3)] show "elem_ok [FObj] (body p) L" by simp
qed (use assms(4) in \<open>auto simp: tasks_ok_def\<close>)

lemma section_le: "section_ok f m \<Longrightarrow> m \<le> n \<Longrightarrow> section_ok f n"
  by (rule json_emits_conseq)

text \<open>The bound that all sections share.\<close>

definition SECTION_MAX :: nat where
  "SECTION_MAX = 1100 + 595 * MAX_ROWS"

lemma rows_le_section_max: "k \<le> MAX_ROWS \<Longrightarrow> L \<le> 593 \<Longrightarrow> k * (L + 2) + 11 \<le> SECTION_MAX"
proof -
  assume "k \<le> MAX_ROWS" "L \<le> 593"
  then have "k * (L + 2) \<le> MAX_ROWS * 595" by (intro mult_le_mono) auto
  then show ?thesis by (simp add: SECTION_MAX_def)
qed

lemma task_row: "list_all2 has_kind as ks \<Longrightarrow> \<exists>as'. (\<forall>op. put_line op fmt as = put_line op fmt as') \<and> list_all2 has_kind as' ks"
  by blast

lemmas row_kinds = header_ok_def str_ok_def psi_ok_def

section \<open>Frequencies\<close>

lemma c_sdiv_defined: "b \<noteq> 0 \<Longrightarrow> b \<noteq> - 1 \<Longrightarrow> \<exists>q. c_sdiv a b = Inr q"
proof -
  assume b: "b \<noteq> 0" "b \<noteq> - 1"
  have "sint b \<noteq> - 1"
  proof
    assume "sint b = - 1"
    from arg_cong[OF this, of "of_int :: int \<Rightarrow> 64 word"] b(2) show False by simp
  qed
  with b(1) show ?thesis by (simp add: c_sdiv_def)
qed

lemma json_calc_freqscale_defined:
  assumes "maxfreq \<noteq> - 1" "ticks \<noteq> - 1"
  shows "\<exists>fq pc. json_calc_freqscale maxfreq cnt ticks = Inr (fq, pc)"
proof (cases "maxfreq \<noteq> 0 \<and> ticks \<noteq> 0")
  case True
  then obtain q where q: "c_sdiv cnt ticks = Inr q" using c_sdiv_defined assms(2) by blast
  from True obtain r where "c_sdiv (100 * q) maxfreq = Inr r" using c_sdiv_defined assms(1) by blast
  with True q show ?thesis by (simp add: json_calc_freqscale_def)
next
  case False
  show ?thesis
  proof (cases "maxfreq = 0")
    case True
    then show ?thesis by (simp add: json_calc_freqscale_def)
  next
    case nz: False
    then obtain r where "c_sdiv (100 * cnt) maxfreq = Inr r" using c_sdiv_defined assms(1) by blast
    with False nz show ?thesis by (simp add: json_calc_freqscale_def)
  qed
qed

lemma sum_freqcnt_sums:
  assumes "i + k \<le> length cs"
  shows "sum_freqcnt cs i k cnt ticks
    = Inr (cnt + (\<Sum>p \<leftarrow> take k (drop i cs). fc_cnt (cp_freqcnt p)),
           ticks + (\<Sum>p \<leftarrow> take k (drop i cs). fc_ticks (cp_freqcnt p)))"
  using assms
proof (induction k arbitrary: i cnt ticks)
  case (Suc k)
  then have i: "i < length cs" by simp
  have "sum_freqcnt cs i (Suc k) cnt ticks
    = sum_freqcnt cs (Suc i) k (cnt + fc_cnt (cp_freqcnt (cs ! i))) (ticks + fc_ticks (cp_freqcnt (cs ! i)))"
    using i by (simp add: at_def)
  also have "\<dots> = Inr (cnt + fc_cnt (cp_freqcnt (cs ! i)) + (\<Sum>p \<leftarrow> take k (drop (Suc i) cs). fc_cnt (cp_freqcnt p)),
      ticks + fc_ticks (cp_freqcnt (cs ! i)) + (\<Sum>p \<leftarrow> take k (drop (Suc i) cs). fc_ticks (cp_freqcnt p)))"
    by (rule Suc.IH) (use Suc.prems in simp)
  finally show ?case using Cons_nth_drop_Suc[OF i, symmetric] by (simp add: add.assoc)
qed simp

section \<open>The formats\<close>

text \<open>
  Every format is checked once, by evaluation: it leads the automaton from the start of an element, or
  from the end of a member, to the end of it, and its longest text is shorter than the line buffer.
\<close>

lemma fmt_CPU_ok:
  "format_check (ANum [FObj]) fmt_CPU
      [K_quoted 5, K_int, K_long, K_long, K_long, K_long, K_long, K_long, K_long, K_long,
       K_long, K_long, K_long, K_int, K_long, K_long]
    = Some (AS ([FObj], JAfter), 457)"
  by code_simp

lemma fmt_CPL_ok:
  "format_check (ANum [FObj]) fmt_CPL
      [K_quoted 5, K_dbl 39, K_dbl 39, K_dbl 39, K_long, K_long]
    = Some (AS ([FObj], JAfter), 236)"
  by code_simp

lemma fmt_MEM_ok:
  "format_check (ANum [FObj]) fmt_MEM
      [K_quoted 5, K_long, K_long, K_long, K_long, K_long, K_long, K_long, K_long, K_long,
       K_long, K_long, K_long, K_long, K_long, K_long, K_long, K_long]
    = Some (AS ([FObj], JAfter), 588)"
  by code_simp

lemma fmt_SWP_ok:
  "format_check (ANum [FObj]) fmt_SWP
      [K_quoted 5, K_long, K_long, K_long, K_long, K_long]
    = Some (AS ([FObj], JAfter), 177)"
  by code_simp

lemma fmt_PAG_ok:
  "format_check (ANum [FObj]) fmt_PAG
      [K_quoted 5, K_long, K_long, K_long, K_long, K_long, K_long, K_long, K_long, K_long,
       K_long, K_long, K_long]
    = Some (AS ([FObj], JAfter), 403)"
  by code_simp

lemma fmt_PSI_ok:
  "format_check (ANum [FObj]) fmt_PSI
      [K_quoted 5, K_chr, K_dbl 39, K_dbl 39, K_dbl 39, K_long, K_dbl 39, K_dbl 39, K_dbl 39,
       K_long, K_dbl 39, K_dbl 39, K_dbl 39, K_long, K_dbl 39, K_dbl 39, K_dbl 39, K_long,
       K_dbl 39, K_dbl 39, K_dbl 39, K_long]
    = Some (AS ([FObj], JAfter), 984)"
  by code_simp

lemma fmt_NFC_ok:
  "format_check (ANum [FObj]) fmt_NFC
      [K_quoted 5, K_long, K_long, K_long, K_long, K_long]
    = Some (AS ([FObj], JAfter), 183)"
  by code_simp

lemma fmt_NFS_ok:
  "format_check (ANum [FObj]) fmt_NFS
      [K_quoted 5, K_long, K_long, K_long, K_long, K_long, K_long, K_long, K_long, K_long,
       K_long, K_long, K_long, K_long, K_long, K_long]
    = Some (AS ([FObj], JAfter), 515)"
  by code_simp

lemma fmt_NET_GENERAL_ok:
  "format_check (ANum [FObj]) fmt_NET_GENERAL
      [K_long, K_long, K_long, K_long, K_long, K_long, K_long, K_long, K_long, K_long, K_long,
       K_long, K_long, K_long, K_long, K_long, K_long]
    = Some (AS ([FObj], JAfter), 632)"
  by code_simp

lemma fmt_cpu_ok:
  "format_check (AElem [FObj]) fmt_cpu
      [K_int, K_long, K_long, K_long, K_long, K_long, K_long, K_long, K_long, K_long, K_long,
       K_int, K_long, K_long]
    = Some (AS ([FArr, FObj], JAfter), 418)"
  by code_simp

lemma fmt_GPU_ok:
  "format_check (AElem [FObj]) fmt_GPU
      [K_int, K_str None, K_str None, K_int, K_int, K_long, K_long, K_long, K_long, K_long,
       K_long]
    = Some (AS ([FArr, FObj], JAfter), 349)"
  by code_simp

lemma fmt_LVM_ok:
  "format_check (AElem [FObj]) fmt_LVM
      [K_str None, K_long, K_long, K_long, K_long, K_long, K_long, K_long, K_long]
    = Some (AS ([FArr, FObj], JAfter), 290)"
  by code_simp

lemma fmt_MDD_ok:
  "format_check (AElem [FObj]) fmt_MDD
      [K_str None, K_long, K_long, K_long, K_long, K_long, K_long, K_long]
    = Some (AS ([FArr, FObj], JAfter), 257)"
  by code_simp

lemma fmt_DSK_ok:
  "format_check (AElem [FObj]) fmt_DSK
      [K_str None, K_long, K_long, K_long, K_long, K_long, K_long, K_long, K_long]
    = Some (AS ([FArr, FObj], JAfter), 290)"
  by code_simp

lemma fmt_NFM_ok:
  "format_check (AElem [FObj]) fmt_NFM
      [K_str None, K_long, K_long, K_long, K_long, K_long, K_long, K_long, K_long]
    = Some (AS ([FArr, FObj], JAfter), 329)"
  by code_simp

lemma fmt_NET_ok:
  "format_check (AElem [FObj]) fmt_NET
      [K_str None, K_long, K_long, K_long, K_long, K_long, K_long, K_long, K_long, K_long,
       K_long, K_long, K_int]
    = Some (AS ([FArr, FObj], JAfter), 398)"
  by code_simp

lemma fmt_IFB_ok:
  "format_check (AElem [FObj]) fmt_IFB
      [K_str None, K_int, K_int, K_long, K_long, K_long, K_long, K_long]
    = Some (AS ([FArr, FObj], JAfter), 225)"
  by code_simp

lemma fmt_NUM_ok:
  "format_check (AElem [FObj]) fmt_NUM
      [K_dbl 39, K_long, K_long, K_long, K_long, K_long, K_long, K_long, K_long, K_long, K_long]
    = Some (AS ([FArr, FObj], JAfter), 391)"
  by code_simp

lemma fmt_LLC_ok:
  "format_check (AElem [FObj]) fmt_LLC
      [K_int, K_dbl 39, K_long, K_long]
    = Some (AS ([FArr, FObj], JAfter), 154)"
  by code_simp

lemma fmt_NUC_ok:
  "format_check (AElem [FObj]) fmt_NUC
      [K_int, K_long, K_long, K_long, K_long, K_long, K_long, K_long, K_long, K_long, K_long]
    = Some (AS ([FArr, FObj], JAfter), 335)"
  by code_simp

lemma fmt_PRG_ok:
  "format_check (AElem [FObj]) fmt_PRG
      [K_int, K_str None, K_chr, K_int, K_int, K_int, K_int, K_str (Some 2), K_int, K_long,
       K_str None, K_int, K_int, K_int, K_int, K_int, K_int, K_long, K_int, K_str None]
    = Some (AS ([FArr, FObj], JAfter), 591)"
  by code_simp

lemma fmt_PRC_ok:
  "format_check (AElem [FObj]) fmt_PRC
      [K_int, K_long, K_long, K_int, K_int, K_int, K_int, K_int, K_long, K_long, K_int]
    = Some (AS ([FArr, FObj], JAfter), 284)"
  by code_simp

lemma fmt_PRM_ok:
  "format_check (AElem [FObj]) fmt_PRM
      [K_int, K_long, K_long, K_long, K_long, K_long, K_long, K_long, K_long, K_long, K_long,
       K_long, K_long, K_long]
    = Some (AS ([FArr, FObj], JAfter), 423)"
  by code_simp

lemma fmt_PRD_ok:
  "format_check (AElem [FObj]) fmt_PRD
      [K_int, K_long, K_long, K_long, K_long, K_long]
    = Some (AS ([FArr, FObj], JAfter), 166)"
  by code_simp

lemma fmt_PRN_ok:
  "format_check (AElem [FObj]) fmt_PRN
      [K_int, K_long, K_long, K_long, K_long, K_long, K_long, K_long, K_long]
    = Some (AS ([FArr, FObj], JAfter), 292)"
  by code_simp

lemma fmt_PRE_ok:
  "format_check (AElem [FObj]) fmt_PRE
      [K_int, K_chr, K_int, K_int, K_int, K_int, K_long, K_long, K_long]
    = Some (AS ([FArr, FObj], JAfter), 227)"
  by code_simp

section \<open>The printers\<close>

text \<open>
  Each printer writes one member of the object. The bound is the same for all; that of a single row
  is the one of its format.
\<close>

lemma json_print_CPL_section:
  assumes "header_ok hp" "sstat_ok env ss"
  shows "section_ok (json_print_CPL env flags hp ss ps nact) SECTION_MAX"
  unfolding json_print_CPL_def[abs_def]
  by (rule section_le[OF section_line[OF fmt_CPL_ok]])
     (use assms in \<open>simp_all add: row_kinds LINE_BUF_SIZE_def SECTION_MAX_def sstat_ok_def cpu_ok_def\<close>)

lemma json_print_MEM_section:
  assumes "header_ok hp"
  shows "section_ok (json_print_MEM env flags hp ss ps nact) SECTION_MAX"
  unfolding json_print_MEM_def[abs_def]
  by (rule section_le[OF section_line[OF fmt_MEM_ok]])
     (use assms in \<open>simp_all add: row_kinds LINE_BUF_SIZE_def SECTION_MAX_def\<close>)

lemma json_print_SWP_section:
  assumes "header_ok hp"
  shows "section_ok (json_print_SWP env flags hp ss ps nact) SECTION_MAX"
  unfolding json_print_SWP_def[abs_def]
  by (rule section_le[OF section_line[OF fmt_SWP_ok]])
     (use assms in \<open>simp_all add: row_kinds LINE_BUF_SIZE_def SECTION_MAX_def\<close>)

lemma json_print_PAG_section:
  assumes "header_ok hp"
  shows "section_ok (json_print_PAG env flags hp ss ps nact) SECTION_MAX"
  unfolding json_print_PAG_def[abs_def]
  by (rule section_le[OF section_line[OF fmt_PAG_ok]])
     (use assms in \<open>simp_all add: row_kinds LINE_BUF_SIZE_def SECTION_MAX_def\<close>)

lemma json_print_NFC_section:
  assumes "header_ok hp"
  shows "section_ok (json_print_NFC env flags hp ss ps nact) SECTION_MAX"
  unfolding json_print_NFC_def[abs_def]
  by (rule section_le[OF section_line[OF fmt_NFC_ok]])
     (use assms in \<open>simp_all add: row_kinds LINE_BUF_SIZE_def SECTION_MAX_def\<close>)

lemma json_print_NFS_section:
  assumes "header_ok hp"
  shows "section_ok (json_print_NFS env flags hp ss ps nact) SECTION_MAX"
  unfolding json_print_NFS_def[abs_def]
  by (rule section_le[OF section_line[OF fmt_NFS_ok]])
     (use assms in \<open>simp_all add: row_kinds LINE_BUF_SIZE_def SECTION_MAX_def\<close>)

lemma json_print_PSI_section:
  assumes "header_ok hp" "sstat_ok env ss"
  shows "section_ok (json_print_PSI env flags hp ss ps nact) SECTION_MAX"
proof (cases "prs_present (ss_psi ss)")
  case True
  then have present: "\<not> \<not> prs_present (ss_psi ss)" by simp
  show ?thesis
    unfolding json_print_PSI_def[abs_def] if_not_P[OF present]
    by (rule section_le[OF section_line[OF fmt_PSI_ok]])
       (use assms True in \<open>simp_all add: row_kinds sstat_ok_def LINE_BUF_SIZE_def SECTION_MAX_def clean_char_def\<close>)
next
  case False
  then have "json_print_PSI env flags hp ss ps nact = Inr" by (simp add: json_print_PSI_def fun_eq_iff)
  then show ?thesis by (simp add: json_emits_skip)
qed

lemma json_print_GPU_section:
  assumes "header_ok hp" "sstat_ok env ss"
  shows "section_ok (json_print_GPU env flags hp ss ps nact) SECTION_MAX"
  unfolding json_print_GPU_def[abs_def]
  by (rule section_le[OF section_idx[OF assms(1) fmt_GPU_ok]], rule_tac [4] rows_le_section_max)
     (use assms in \<open>simp_all add: row_kinds sstat_ok_def counted_def LINE_BUF_SIZE_def\<close>)

lemma json_print_NFM_section:
  assumes "header_ok hp" "sstat_ok env ss"
  shows "section_ok (json_print_NFM env flags hp ss ps nact) SECTION_MAX"
  unfolding json_print_NFM_def[abs_def]
  by (rule section_le[OF section_idx[OF assms(1) fmt_NFM_ok]], rule_tac [4] rows_le_section_max)
     (use assms in \<open>simp_all add: row_kinds sstat_ok_def counted_def LINE_BUF_SIZE_def\<close>)

lemma json_print_IFB_section:
  assumes "header_ok hp" "sstat_ok env ss"
  shows "section_ok (json_print_IFB env flags hp ss ps nact) SECTION_MAX"
  unfolding json_print_IFB_def[abs_def]
  by (rule section_le[OF section_idx[OF assms(1) fmt_IFB_ok]], rule_tac [4] rows_le_section_max)
     (use assms in \<open>simp_all add: row_kinds sstat_ok_def counted_def LINE_BUF_SIZE_def\<close>)

lemma json_print_NUM_section:
  assumes "header_ok hp" "sstat_ok env ss"
  shows "section_ok (json_print_NUM env flags hp ss ps nact) SECTION_MAX"
  unfolding json_print_NUM_def[abs_def]
  by (rule section_le[OF section_idx[OF assms(1) fmt_NUM_ok]], rule_tac [4] rows_le_section_max)
     (use assms in \<open>simp_all add: row_kinds sstat_ok_def counted_def LINE_BUF_SIZE_def\<close>)

lemma json_print_NUC_section:
  assumes "header_ok hp" "sstat_ok env ss"
  shows "section_ok (json_print_NUC env flags hp ss ps nact) SECTION_MAX"
  unfolding json_print_NUC_def[abs_def]
  by (rule section_le[OF section_idx[OF assms(1) fmt_NUC_ok]], rule_tac [4] rows_le_section_max)
     (use assms in \<open>simp_all add: row_kinds sstat_ok_def counted_def LINE_BUF_SIZE_def\<close>)

lemma json_print_LLC_section:
  assumes "header_ok hp" "sstat_ok env ss"
  shows "section_ok (json_print_LLC env flags hp ss ps nact) SECTION_MAX"
  unfolding json_print_LLC_def[abs_def]
  by (rule section_le[OF section_idx[OF assms(1) fmt_LLC_ok]], rule_tac [4] rows_le_section_max)
     (use assms in \<open>simp_all add: row_kinds sstat_ok_def counted_def LINE_BUF_SIZE_def\<close>)

lemma json_print_LVM_section:
  assumes "header_ok hp" "sstat_ok env ss"
  shows "section_ok (json_print_LVM env flags hp ss ps nact) SECTION_MAX"
  unfolding json_print_LVM_def[abs_def]
  by (rule section_le[OF section_name[OF assms(1) fmt_LVM_ok]], rule_tac [4] rows_le_section_max)
     (use assms in \<open>simp_all add: row_kinds sstat_ok_def named_def LINE_BUF_SIZE_def\<close>)

lemma json_print_MDD_section:
  assumes "header_ok hp" "sstat_ok env ss"
  shows "section_ok (json_print_MDD env flags hp ss ps nact) SECTION_MAX"
  unfolding json_print_MDD_def[abs_def]
  by (rule section_le[OF section_name[OF assms(1) fmt_MDD_ok]], rule_tac [4] rows_le_section_max)
     (use assms in \<open>simp_all add: row_kinds sstat_ok_def named_def LINE_BUF_SIZE_def\<close>)

lemma json_print_DSK_section:
  assumes "header_ok hp" "sstat_ok env ss"
  shows "section_ok (json_print_DSK env flags hp ss ps nact) SECTION_MAX"
  unfolding json_print_DSK_def[abs_def]
  by (rule section_le[OF section_name[OF assms(1) fmt_DSK_ok]], rule_tac [4] rows_le_section_max)
     (use assms in \<open>simp_all add: row_kinds sstat_ok_def named_def LINE_BUF_SIZE_def\<close>)

lemma json_print_NET_section:
  assumes "header_ok hp" "sstat_ok env ss"
  shows "section_ok (json_print_NET env flags hp ss ps nact) SECTION_MAX"
proof -
  have "section_ok (json_print_NET env flags hp ss ps nact) (632 + (length (intf_intf (ss_intf ss)) * (398 + 2) + 11))"
    unfolding json_print_NET_def[abs_def]
    by (rule json_emits_seq[OF section_line[OF fmt_NET_GENERAL_ok] section_name[OF assms(1) fmt_NET_ok]])
       (use assms in \<open>simp_all add: row_kinds sstat_ok_def LINE_BUF_SIZE_def\<close>)
  moreover have "length (intf_intf (ss_intf ss)) \<le> MAX_ROWS" using assms(2) by (simp add: sstat_ok_def named_def)
  then have "632 + (length (intf_intf (ss_intf ss)) * (398 + 2) + 11) \<le> SECTION_MAX"
    by (simp add: SECTION_MAX_def)
  ultimately show ?thesis by (rule section_le)
qed

lemma json_print_PRM_section:
  assumes "header_ok hp" "tasks_ok env ps nact"
  shows "section_ok (json_print_PRM env flags hp ss ps nact) SECTION_MAX"
  unfolding json_print_PRM_def[abs_def]
  by (rule section_le[OF section_task[OF assms(1) fmt_PRM_ok _ assms(2) task_row]], rule_tac [3] rows_le_section_max)
     (use assms in \<open>auto simp: row_kinds tstat_ok_def LINE_BUF_SIZE_def tasks_ok_def clean_char_def\<close>)

lemma json_print_PRD_section:
  assumes "header_ok hp" "tasks_ok env ps nact"
  shows "section_ok (json_print_PRD env flags hp ss ps nact) SECTION_MAX"
  unfolding json_print_PRD_def[abs_def]
  by (rule section_le[OF section_task[OF assms(1) fmt_PRD_ok _ assms(2) task_row]], rule_tac [3] rows_le_section_max)
     (use assms in \<open>auto simp: row_kinds tstat_ok_def LINE_BUF_SIZE_def tasks_ok_def clean_char_def\<close>)

lemma json_print_PRN_section:
  assumes "header_ok hp" "tasks_ok env ps nact"
  shows "section_ok (json_print_PRN env flags hp ss ps nact) SECTION_MAX"
proof (cases "flags AND c_NETATOP (aflags env) = 0")
  case True
  then have "json_print_PRN env flags hp ss ps nact = Inr" by (simp add: json_print_PRN_def fun_eq_iff)
  then show ?thesis by (simp add: json_emits_skip)
next
  case False
  show ?thesis
    unfolding json_print_PRN_def[abs_def] if_not_P[OF False]
    by (rule section_le[OF section_task[OF assms(1) fmt_PRN_ok _ assms(2) task_row]], rule_tac [3] rows_le_section_max)
     (use assms in \<open>auto simp: row_kinds tstat_ok_def LINE_BUF_SIZE_def tasks_ok_def clean_char_def\<close>)
qed

lemma json_print_PRE_section:
  assumes "header_ok hp" "tasks_ok env ps nact"
  shows "section_ok (json_print_PRE env flags hp ss ps nact) SECTION_MAX"
proof (cases "flags AND c_GPUSTAT (aflags env) = 0")
  case True
  then have "json_print_PRE env flags hp ss ps nact = Inr" by (simp add: json_print_PRE_def fun_eq_iff)
  then show ?thesis by (simp add: json_emits_skip)
next
  case False
  show ?thesis
    unfolding json_print_PRE_def[abs_def] if_not_P[OF False]
    by (rule section_le[OF section_task[OF assms(1) fmt_PRE_ok _ assms(2) task_row]], rule_tac [3] rows_le_section_max)
     (use assms in \<open>auto simp: row_kinds tstat_ok_def LINE_BUF_SIZE_def tasks_ok_def clean_char_def\<close>)
qed

lemma exit_status_kinds:
  "exit_status w = (st, code) \<Longrightarrow> has_kind (A_str st) (K_str (Some 2))"
  by (auto simp: exit_status_def Let_def clean_char_def split: if_splits)

lemma json_print_PRG_section:
  assumes "header_ok hp" "tasks_ok env ps nact"
  shows "section_ok (json_print_PRG env flags hp ss ps nact) SECTION_MAX"
proof -
  have row: "\<exists>as. (\<forall>op. (let (st, exitcode) = exit_status (tg_excode (ts_gen p))
       in and_then (at (tg_container (ts_gen p)) 0) (\<lambda>c.
          let cid = (if c \<noteq> NUL then tg_container (ts_gen p) else ''-'' @ [NUL])
          in put_line op fmt_PRG (f p st exitcode cid))) = put_line op fmt_PRG as) \<and> list_all2 has_kind as ks"
    if "tstat_ok p" "\<And>st code cid. has_kind (A_str st) (K_str (Some 2)) \<Longrightarrow> str_ok cid \<Longrightarrow> list_all2 has_kind (f p st code cid) ks"
    for p f ks
  proof -
    obtain st code where st: "exit_status (tg_excode (ts_gen p)) = (st, code)" by fastforce
    note ok = that(1)
    obtain c cs where c: "tg_container (ts_gen p) = c # cs" using ok
      by (cases "tg_container (ts_gen p)") (auto simp: tstat_ok_def str_ok_def)
    have "str_ok (if c \<noteq> NUL then c # cs else ''-'' @ [NUL])"
      using that(1) c by (auto simp: tstat_ok_def str_ok_def clean_char_def)
    from that(2)[OF exit_status_kinds[OF st] this] st c show ?thesis by (auto simp: at_def Let_def)
  qed
  show ?thesis
    unfolding json_print_PRG_def[abs_def]
    by (rule section_le[OF section_task[OF assms(1) fmt_PRG_ok _ assms(2) row]], rule_tac [4] rows_le_section_max)
       (use assms in \<open>auto simp: row_kinds tstat_ok_def LINE_BUF_SIZE_def tasks_ok_def\<close>)
qed

lemma json_print_PRC_section:
  assumes "header_ok hp" "tasks_ok env ps nact"
  shows "section_ok (json_print_PRC env flags hp ss ps nact) SECTION_MAX"
proof -
  have "\<forall>a. \<exists>q. c_sdiv a 1000000 = Inr q" by (intro allI c_sdiv_defined) simp_all
  then obtain q where q: "\<And>a. c_sdiv a 1000000 = Inr (q a)" by metis
  have hertz_small: False if "unat (hertz env) = unat (- 1 :: 64 word)" "unat (hertz env) < 2 ^ LENGTH(16)"
    using that by (simp add: unsigned_minus_1_eq_mask mask_eq_exp_minus_1)
  have u: "unat (ucast (hertz env) :: 64 word) = unat (hertz env)" using unsigned_less[of "hertz env", where ?'a = nat]
    by (simp add: unsigned_ucast_eq take_bit_nat_eq_self)
  have "(ucast (hertz env) :: 64 word) \<noteq> 0"
    using assms(2) u by (metis tasks_ok_def unat_0 unat_eq_zero)
  moreover have "(ucast (hertz env) :: 64 word) \<noteq> - 1"
    using u unsigned_less[of "hertz env", where ?'a = nat] by (metis hertz_small)
  ultimately have "\<forall>a. \<exists>r. c_sdiv a (ucast (hertz env)) = Inr r" by (intro allI c_sdiv_defined)
  then obtain r where r: "\<And>a. c_sdiv a (ucast (hertz env)) = Inr (r a)" by metis
  show ?thesis
    unfolding json_print_PRC_def[abs_def] q r and_then_simps
    by (rule section_le[OF section_task[OF assms(1) fmt_PRC_ok _ assms(2) task_row]], rule_tac [3] rows_le_section_max)
       (use assms in \<open>auto simp: row_kinds tstat_ok_def LINE_BUF_SIZE_def tasks_ok_def\<close>)
qed

lemma json_print_cpu_section:
  assumes "header_ok hp" "sstat_ok env ss"
  shows "section_ok (json_print_cpu env flags hp ss ps nact) SECTION_MAX"
proof -
  let ?cs = "cpu_cpu (ss_cpu ss)"
  from assms(2) have ok: "counted (sint (cpu_nrcpu (ss_cpu ss))) ?cs" "?cs \<noteq> []"
    "fc_maxfreq (cp_freqcnt (hd ?cs)) \<noteq> - 1" "\<And>p. p \<in> set ?cs \<Longrightarrow> fc_ticks (cp_freqcnt p) \<noteq> - 1"
    by (auto simp: sstat_ok_def cpu_ok_def)
  define row where "row = (\<lambda>i op.
       and_then (at ?cs i) (\<lambda>e.
       and_then (at ?cs 0) (\<lambda>c0.
       and_then (json_calc_freqscale (fc_maxfreq (cp_freqcnt c0)) (fc_cnt (cp_freqcnt e))
                   (fc_ticks (cp_freqcnt e))) (\<lambda>(freq, freqperc).
         put_line op fmt_cpu
           [A_int (of_nat i), A_long (cp_stime e), A_long (cp_utime e), A_long (cp_ntime e),
            A_long (cp_itime e), A_long (cp_wtime e), A_long (cp_Itime e), A_long (cp_Stime e),
            A_long (cp_steal e), A_long (cp_guest e), A_long freq, A_int freqperc,
            A_long (cp_instr e), A_long (cp_cycle e)]))))"
  have "elem_ok [FObj] (row j) 418" if "j < nat (sint (cpu_nrcpu (ss_cpu ss)))" for j
  proof -
    from that ok(1) have j: "j < length ?cs" by (simp add: counted_def)
    have "fc_maxfreq (cp_freqcnt (?cs ! 0)) \<noteq> - 1" using ok(2,3) by (simp add: hd_conv_nth)
    moreover have "fc_ticks (cp_freqcnt (?cs ! j)) \<noteq> - 1" using ok(4) j by simp
    ultimately obtain fq pc where fq: "json_calc_freqscale (fc_maxfreq (cp_freqcnt (?cs ! 0)))
        (fc_cnt (cp_freqcnt (?cs ! j))) (fc_ticks (cp_freqcnt (?cs ! j))) = Inr (fq, pc)"
      using json_calc_freqscale_defined by blast
    show ?thesis
      using j ok(2) fq by (simp add: row_def json_emits_line[OF fmt_cpu_ok] LINE_BUF_SIZE_def)
  qed
  then have "section_ok (array_section hp (idx_loop row 0 (nat (sint (cpu_nrcpu (ss_cpu ss))))))
      (nat (sint (cpu_nrcpu (ss_cpu ss))) * (418 + 2) + 11)"
    by (intro json_emits_array_section assms(1) json_emits_idx_loop) simp
  moreover have "json_print_cpu env flags hp ss ps nact
      = array_section hp (idx_loop row 0 (nat (sint (cpu_nrcpu (ss_cpu ss)))))"
    by (simp add: json_print_cpu_def[abs_def] row_def)
  ultimately show ?thesis
    using section_le[OF _ rows_le_section_max[of _ 418]] ok(1) by (simp add: counted_def)
qed

text \<open>
  The first printer also clears the hardware counters of the sample when they are a marker.
\<close>

lemma clear_instr_ok: "sstat_ok env (clear_instr ss) = sstat_ok env ss"
  by (simp add: clear_instr_def sstat_ok_def cpu_ok_def)

lemma json_print_CPU_runs:
  assumes "header_ok hp" "sstat_ok env ss"
  shows "\<exists>f. section_ok f SECTION_MAX
           \<and> (\<forall>op. json_print_CPU env flags hp ss ps nact op = and_then (f op) (\<lambda>op. Inr (clear_instr ss, op)))"
proof -
  let ?cs = "cpu_cpu (ss_cpu ss)" and ?n = "nat (sint (cpu_nrcpu (ss_cpu ss)))"
  let ?sum = "\<lambda>fld. \<Sum>p \<leftarrow> take ?n ?cs. fld (cp_freqcnt p)"
  from assms(2) have ok: "?n \<le> length ?cs" "?cs \<noteq> []"
    "fc_maxfreq (cp_freqcnt (hd ?cs)) \<noteq> - 1" "?sum fc_ticks \<noteq> - 1"
    by (auto simp: sstat_ok_def cpu_ok_def counted_def)
  have sums: "sum_freqcnt ?cs 0 ?n 0 0 = Inr (?sum fc_cnt, ?sum fc_ticks)"
    using sum_freqcnt_sums[of 0 ?n ?cs 0 0] ok(1) by simp
  have "fc_maxfreq (cp_freqcnt (?cs ! 0)) \<noteq> - 1" using ok(2,3) by (simp add: hd_conv_nth)
  then obtain fq pc where fq: "json_calc_freqscale (fc_maxfreq (cp_freqcnt (?cs ! 0)))
      (?sum fc_cnt) (?sum fc_ticks) = Inr (fq, pc)"
    using json_calc_freqscale_defined ok(4) by blast
  have c0: "at ?cs 0 = Inr (?cs ! 0)" using ok(2) by simp
  have line: "section_ok (\<lambda>op. put_line op fmt_CPU as) SECTION_MAX"
    if "list_all2 has_kind as [K_quoted 5, K_int, K_long, K_long, K_long, K_long, K_long, K_long, K_long,
       K_long, K_long, K_long, K_long, K_int, K_long, K_long]" for as
    by (rule section_le[OF section_line[OF fmt_CPU_ok that]]) (simp_all add: LINE_BUF_SIZE_def SECTION_MAX_def)
  show ?thesis
    unfolding json_print_CPU_def sums c0 and_then_simps prod.case fq Let_def
    by (rule exI, rule conjI, rule line, rule_tac [2] allI, rule_tac [2] refl)
       (use assms(1) in \<open>simp add: header_ok_def\<close>)
qed

end
