(* ===== verification/JsonOut.thy ===== *)
theory JsonOut
  imports JsonProofs
begin

text \<open>
  \<open>jsondef\<close>, which reads the list of labels of a request, and \<open>jsonout\<close>, which writes the whole
  answer: the general member, the sections that were asked for, and the end of the object.

  The label table is a list of records whose printer is the function itself, as in the C table.
  \<open>jsonout\<close> changes the tasks of its argument (it replaces quotes, and hides the command lines)
  and the sample; both are local to the request, so the model passes them on to the printers
  and does not return them.
\<close>

section \<open>The table of labels\<close>

type_synonym prifunc =
  "jenv \<Rightarrow> 32 word \<Rightarrow> bytes \<Rightarrow> sstat \<Rightarrow> tstat list \<Rightarrow> nat \<Rightarrow> output_t \<Rightarrow> (sstat \<times> output_t) res"

record labeldef =
  lab_label :: string
  lab_valid :: bool
  lab_prifunc :: prifunc

text \<open>A printer that leaves the sample alone.\<close>

definition leaving :: "printer \<Rightarrow> prifunc" where
  "leaving f env flags hp ss ps nact op = and_then (f env flags hp ss ps nact op) (\<lambda>op. Inr (ss, op))"

definition labeldefs :: "labeldef list" where
  "labeldefs = map (\<lambda>(l, f). \<lparr>lab_label = l, lab_valid = False, lab_prifunc = f\<rparr>)
     [(''CPU'', json_print_CPU),
      (''cpu'', leaving json_print_cpu),
      (''CPL'', leaving json_print_CPL),
      (''GPU'', leaving json_print_GPU),
      (''MEM'', leaving json_print_MEM),
      (''SWP'', leaving json_print_SWP),
      (''PAG'', leaving json_print_PAG),
      (''PSI'', leaving json_print_PSI),
      (''LVM'', leaving json_print_LVM),
      (''MDD'', leaving json_print_MDD),
      (''DSK'', leaving json_print_DSK),
      (''NFM'', leaving json_print_NFM),
      (''NFC'', leaving json_print_NFC),
      (''NFS'', leaving json_print_NFS),
      (''NET'', leaving json_print_NET),
      (''IFB'', leaving json_print_IFB),
      (''NUM'', leaving json_print_NUM),
      (''NUC'', leaving json_print_NUC),
      (''LLC'', leaving json_print_LLC),
      (''PRG'', leaving json_print_PRG),
      (''PRC'', leaving json_print_PRC),
      (''PRM'', leaving json_print_PRM),
      (''PRD'', leaving json_print_PRD),
      (''PRN'', leaving json_print_PRN),
      (''PRE'', leaving json_print_PRE)]"

section \<open>Reading the list of labels\<close>

text \<open>The first entry with this label becomes valid; \<open>None\<close> when there is none.\<close>

fun mark_label :: "labeldef list \<Rightarrow> string \<Rightarrow> labeldef list option" where
  "mark_label [] pd = None"
| "mark_label (l # ls) pd =
     (if lab_label l = pd then Some (l\<lparr>lab_valid := True\<rparr> # ls)
      else map_option (\<lambda>ls'. l # ls') (mark_label ls pd))"

definition fmt_unsupported :: string where
  "fmt_unsupported = ''json lables not supported: %s\<newline>''"

definition msg_no_labels :: string where
  "msg_no_labels = ''json lables should be followed by label list\<newline>''"

text \<open>
  \<open>output_samp (&defop, err, strlen (err))\<close>, where \<open>err\<close> has 64 bytes.
\<close>

definition put_unsupported :: "output_t \<Rightarrow> string \<Rightarrow> output_t res" where
  "put_unsupported op pd =
     and_then (c_snprintf 64 fmt_unsupported [A_str (pd @ [NUL])]) (\<lambda>(err, _).
       and_then (c_strlen err) (\<lambda>n. output_samp op err (int n)))"

text \<open>
  The loop; its argument is the text from \<open>pd\<close> to \<open>ep\<close>. A comma is overwritten with NUL, so that
  \<open>pd\<close> is the text before it; without one \<open>pd\<close> ends at \<open>ep\<close>, and \<open>p = ep - 1\<close> ends the loop.
\<close>

function jsondef_loop :: "labeldef list \<Rightarrow> string \<Rightarrow> output_t \<Rightarrow> (int \<times> labeldef list \<times> output_t) res" where
  "jsondef_loop tbl pd op =
     (if pd = [] then Inr (0, tbl, op)
      else let tok = takeWhile (\<lambda>c. c \<noteq> CHR '','') pd;
               rest = drop (Suc (length tok)) pd
           in case mark_label tbl tok of
                Some tbl' \<Rightarrow> jsondef_loop tbl' rest op
              | None \<Rightarrow>
                  if tok = ''ALL'' then Inr (0, map (\<lambda>l. l\<lparr>lab_valid := True\<rparr>) tbl, op)
                  else and_then (put_unsupported op tok) (\<lambda>op. Inr (- int EINVAL, tbl, op)))"
  by pat_completeness auto
termination
  by (relation "measure (\<lambda>(tbl, pd, op). length pd)") auto

declare jsondef_loop.simps [simp del]

definition jsondef :: "labeldef list \<Rightarrow> bytes \<Rightarrow> output_t \<Rightarrow> (int \<times> labeldef list \<times> output_t) res" where
  "jsondef tbl pd op =
     and_then (c_strlen pd) (\<lambda>n.
     and_then (at pd 0) (\<lambda>c.
       if c = CHR ''-'' then and_then (put_lit op msg_no_labels) (\<lambda>op. Inr (- int EINVAL, tbl, op))
       else jsondef_loop tbl (take n pd) op))"

section \<open>Writing the answer\<close>

text \<open>
  \<open>for (j = 0; j < sizeof (a) && a[j]; j++)\<close>: quotes and backslashes become \<open>#\<close>.
\<close>

fun replace_quotes :: "bytes \<Rightarrow> bytes" where
  "replace_quotes [] = []"
| "replace_quotes (c # cs) =
     (if c = NUL then c # cs
      else (if c = CHR 0x22 \<or> c = CHR 0x5C then CHR ''#'' else c) # replace_quotes cs)"

definition c_strcpy :: "bytes \<Rightarrow> string \<Rightarrow> bytes res" where
  "c_strcpy dst s =
     (if length s < length dst then Inr (s @ [NUL] @ drop (Suc (length s)) dst) else Inl OutOfBounds)"

definition sanitize_task :: "jenv \<Rightarrow> tstat \<Rightarrow> tstat res" where
  "sanitize_task env p =
     (let p = p\<lparr>ts_gen := (ts_gen p)\<lparr>tg_name := replace_quotes (tg_name (ts_gen p))\<rparr>\<rparr>
      in if hidecmdline env \<noteq> 0
         then and_then (c_strcpy (tg_cmdline (ts_gen p)) ''***'') (\<lambda>cmd.
                Inr (p\<lparr>ts_gen := (ts_gen p)\<lparr>tg_cmdline := cmd\<rparr>\<rparr>))
         else Inr (p\<lparr>ts_gen := (ts_gen p)\<lparr>tg_cmdline := replace_quotes (tg_cmdline (ts_gen p))\<rparr>\<rparr>))"

fun sanitize_tasks :: "jenv \<Rightarrow> nat \<Rightarrow> tstat list \<Rightarrow> tstat list res" where
  "sanitize_tasks env 0 ps = Inr ps"
| "sanitize_tasks env (Suc k) [] = Inl OutOfBounds"
| "sanitize_tasks env (Suc k) (p # ps) =
     and_then (sanitize_task env p) (\<lambda>p. and_then (sanitize_tasks env k ps) (\<lambda>ps. Inr (p # ps)))"

definition fmt_general :: string where
  \<open>fmt_general =
     ''{"host": "%s", ''
     @ ''"timestamp": %ld, ''
     @ ''"elapsed": %d''\<close>

definition put_general :: "jenv \<Rightarrow> 64 word \<Rightarrow> 32 word \<Rightarrow> output_t \<Rightarrow> output_t res" where
  "put_general env curtime numsecs op =
     and_then (c_snprintf 256 fmt_general [A_str (nodename env), A_long curtime, A_int numsecs]) (\<lambda>(general, buflen).
       output_samp op general buflen)"

definition fmt_header :: string where
  \<open>fmt_header = ''"%s"''\<close>

fun print_labels ::
    "jenv \<Rightarrow> 32 word \<Rightarrow> labeldef list \<Rightarrow> sstat \<Rightarrow> tstat list \<Rightarrow> nat \<Rightarrow> output_t \<Rightarrow> output_t res" where
  "print_labels env flags [] ss ps nact op = Inr op"
| "print_labels env flags (l # ls) ss ps nact op =
     (if \<not> lab_valid l then print_labels env flags ls ss ps nact op
      else and_then (c_snprintf 256 fmt_header [A_str (lab_label l @ [NUL])]) (\<lambda>(header, _).
           and_then (lab_prifunc l env flags header ss ps nact op) (\<lambda>(ss, op).
             print_labels env flags ls ss ps nact op)))"

definition jsonout ::
    "jenv \<Rightarrow> (output_t \<Rightarrow> 'conn \<Rightarrow> 'conn res) option \<Rightarrow> 32 word \<Rightarrow> bytes \<Rightarrow> 64 word \<Rightarrow> 32 word
       \<Rightarrow> devtstat \<Rightarrow> sstat \<Rightarrow> output_t \<Rightarrow> 'conn \<Rightarrow> (int \<times> output_t \<times> 'conn) res" where
  "jsonout env hook flags pd curtime numsecs dev ss op conn =
     and_then (jsondef labeldefs pd op) (\<lambda>(ret, tbl, op).
       if ret \<noteq> 0
       then and_then (output_samp_done hook op conn) (\<lambda>(op, conn). Inr (ret, op, conn))
       else and_then (put_general env curtime numsecs op) (\<lambda>op.
            and_then (sanitize_tasks env (ntaskall dev) (taskall dev)) (\<lambda>ps.
            and_then (print_labels env flags tbl ss ps (ntaskall dev) op) (\<lambda>op.
            and_then (put_lit op ''}\<newline>'') (\<lambda>op.
            and_then (output_samp_done hook op conn) (\<lambda>(op, conn). Inr (0, op, conn)))))))"

section \<open>The list of labels\<close>

definition label_names :: "string set" where
  "label_names = set (map lab_label labeldefs)"

fun label_list :: "string list \<Rightarrow> string" where
  "label_list [] = []"
| "label_list [l] = l"
| "label_list (l # ls) = l @ '','' @ label_list ls"

definition select :: "string set \<Rightarrow> labeldef list \<Rightarrow> labeldef list" where
  "select S tbl = map (\<lambda>l. l\<lparr>lab_valid := (lab_valid l \<or> lab_label l \<in> S)\<rparr>) tbl"

lemma labeldefs_distinct: "distinct (map lab_label labeldefs)"
  by (simp add: labeldefs_def)

lemma label_names_plain:
  assumes "l \<in> label_names"
  shows "l \<noteq> []" "CHR '','' \<notin> set l" "NUL \<notin> set l" "hd l \<noteq> CHR ''-''" "length l = 3" "clean l"
  using assms by (auto simp: label_names_def labeldefs_def clean_char_def)

lemma mark_label_select:
  "distinct (map lab_label tbl) \<Longrightarrow> l \<in> set (map lab_label tbl) \<Longrightarrow> mark_label tbl l = Some (select {l} tbl)"
proof (induction tbl)
  case (Cons x tbl)
  show ?case
  proof (cases "lab_label x = l")
    case True
    have "lab_label y \<noteq> l" if "y \<in> set tbl" for y
      using Cons.prems(1) True imageI[OF that, of lab_label] by auto
    then have "select {l} tbl = tbl" by (auto simp: select_def intro!: map_idI)
    then show ?thesis using True by (simp add: select_def)
  next
    case False
    with Cons have "mark_label tbl l = Some (select {l} tbl)" by simp
    with False show ?thesis by (simp add: select_def)
  qed
qed simp

lemma mark_label_None: "mark_label tbl l = None \<longleftrightarrow> l \<notin> set (map lab_label tbl)"
  by (induction tbl) auto

lemma select_select [simp]: "select S (select T tbl) = select (T \<union> S) tbl"
  by (simp add: select_def)

lemma select_empty [simp]: "select {} tbl = tbl"
  by (simp add: select_def)

lemma map_label_select [simp]: "map lab_label (select S tbl) = map lab_label tbl"
  by (simp add: select_def comp_def)

lemma label_list_tok:
  assumes "l \<in> label_names"
  shows "takeWhile (\<lambda>c. c \<noteq> CHR '','') (label_list (l # ls)) = l"
    and "drop (Suc (length l)) (label_list (l # ls)) = label_list ls"
    and "label_list (l # ls) \<noteq> []"
  using label_names_plain[OF assms] by (cases ls; auto simp: takeWhile_append)+

lemma jsondef_loop_select:
  assumes "set ls \<subseteq> label_names" "map lab_label tbl = map lab_label labeldefs"
  shows "jsondef_loop tbl (label_list ls) op = Inr (0, select (set ls) tbl, op)"
  using assms
proof (induction ls arbitrary: tbl)
  case (Cons l ls)
  then have l: "l \<in> label_names" by simp
  then have "mark_label tbl l = Some (select {l} tbl)"
    using Cons.prems(2) labeldefs_distinct by (intro mark_label_select) (simp_all add: label_names_def)
  moreover have "jsondef_loop (select {l} tbl) (label_list ls) op = Inr (0, select (set ls) (select {l} tbl), op)"
    by (rule Cons.IH) (use Cons.prems in auto)
  ultimately show ?case
    using label_list_tok[OF l, of ls] by (subst jsondef_loop.simps) (simp add: Let_def)
qed (simp add: jsondef_loop.simps)

lemma label_list_chars: "c \<in> set (label_list ls) \<Longrightarrow> c = CHR '','' \<or> (\<exists>l \<in> set ls. c \<in> set l)"
  by (induction ls rule: label_list.induct) auto

lemma c_strlen_app: "NUL \<notin> set s \<Longrightarrow> c_strlen (s @ NUL # rest) = Inr (length s)"
  by (induction s) auto

lemma jsondef_start:
  assumes "NUL \<notin> set s" "s = [] \<or> hd s \<noteq> CHR ''-''"
  shows "jsondef tbl (s @ NUL # rest) op = jsondef_loop tbl s op"
  using assms by (cases s) (auto simp: jsondef_def c_strlen_app at_def)

lemma jsondef_known:
  assumes "set ls \<subseteq> label_names"
  shows "jsondef labeldefs (label_list ls @ NUL # rest) op = Inr (0, select (set ls) labeldefs, op)"
proof -
  have "NUL \<notin> set (label_list ls)"
    using assms label_names_plain(3) by (auto dest!: label_list_chars)
  moreover have "label_list ls = [] \<or> hd (label_list ls) \<noteq> CHR ''-''"
  proof (cases ls)
    case (Cons l ls')
    with assms have "l \<in> label_names" by simp
    from label_names_plain[OF this] show ?thesis using Cons by (cases ls'; cases l) auto
  qed simp
  ultimately show ?thesis by (simp add: jsondef_start jsondef_loop_select assms)
qed

section \<open>Every label prints a section\<close>

definition good_label :: "labeldef \<Rightarrow> bool" where
  "good_label l \<longleftrightarrow> lab_label l \<in> label_names
     \<and> (\<forall>env flags hp ss ps n. header_ok hp \<longrightarrow> sstat_ok env ss \<longrightarrow> tasks_ok env ps n \<longrightarrow>
          (\<exists>f ss'. section_ok f SECTION_MAX \<and> sstat_ok env ss'
             \<and> (\<forall>op. lab_prifunc l env flags hp ss ps n op = and_then (f op) (\<lambda>op. Inr (ss', op)))))"

lemma good_leaving:
  assumes "lab_label l \<in> label_names" "lab_prifunc l = leaving f"
    and "\<And>env flags hp ss ps n. header_ok hp \<Longrightarrow> sstat_ok env ss \<Longrightarrow> tasks_ok env ps n \<Longrightarrow>
           section_ok (f env flags hp ss ps n) SECTION_MAX"
  shows "good_label l"
  unfolding good_label_def
proof (intro conjI assms(1) allI impI)
  fix env flags hp ss ps n assume ok: "header_ok hp" "sstat_ok env ss" "tasks_ok env ps n"
  show "\<exists>g ss'. section_ok g SECTION_MAX \<and> sstat_ok env ss'
             \<and> (\<forall>op. lab_prifunc l env flags hp ss ps n op = and_then (g op) (\<lambda>op. Inr (ss', op)))"
    by (rule exI[of _ "f env flags hp ss ps n"], rule exI[of _ ss])
       (use ok assms(2,3) in \<open>simp add: leaving_def\<close>)
qed

lemmas sections =
  json_print_cpu_section json_print_CPL_section json_print_GPU_section json_print_MEM_section
  json_print_SWP_section json_print_PAG_section json_print_PSI_section json_print_LVM_section
  json_print_MDD_section json_print_DSK_section json_print_NFM_section json_print_NFC_section
  json_print_NFS_section json_print_NET_section json_print_IFB_section json_print_NUM_section
  json_print_NUC_section json_print_LLC_section json_print_PRG_section json_print_PRC_section
  json_print_PRM_section json_print_PRD_section json_print_PRN_section json_print_PRE_section

lemma good_CPU: "lab_label l \<in> label_names \<Longrightarrow> lab_prifunc l = json_print_CPU \<Longrightarrow> good_label l"
  unfolding good_label_def
proof (intro conjI allI impI, assumption)
  fix env flags hp ss ps n
  assume "lab_prifunc l = json_print_CPU" "header_ok hp" "sstat_ok env ss" "tasks_ok env ps n"
  then show "\<exists>g ss'. section_ok g SECTION_MAX \<and> sstat_ok env ss'
             \<and> (\<forall>op. lab_prifunc l env flags hp ss ps n op = and_then (g op) (\<lambda>op. Inr (ss', op)))"
    using json_print_CPU_runs[of hp env ss] clear_instr_ok by metis
qed

lemma labeldefs_good: "l \<in> set labeldefs \<Longrightarrow> good_label l"
proof -
  assume l: "l \<in> set labeldefs"
  then have "lab_label l \<in> label_names" by (simp add: label_names_def)
  moreover have "lab_prifunc l = json_print_CPU
     \<or> (\<exists>f. lab_prifunc l = leaving f \<and> (\<forall>env flags hp ss ps n. header_ok hp \<longrightarrow> sstat_ok env ss \<longrightarrow> tasks_ok env ps n \<longrightarrow>
           section_ok (f env flags hp ss ps n) SECTION_MAX))"
    using l sections unfolding labeldefs_def by auto
  ultimately show ?thesis using good_CPU good_leaving by metis
qed

lemma good_select: "l \<in> set (select S labeldefs) \<Longrightarrow> good_label l"
  using labeldefs_good by (auto simp: select_def good_label_def)

lemma cstr_app: "NUL \<notin> set s \<Longrightarrow> cstr (s @ NUL # rest) = s"
  by (induction s) (auto simp: cstr_def)

lemma header_good:
  assumes "l \<in> label_names"
  shows "\<exists>hp n. c_snprintf 256 fmt_header [A_str (l @ [NUL])] = Inr (hp, n) \<and> header_ok hp"
proof -
  note l = label_names_plain[OF assms]
  have dirs: "parse_dirs In_text fmt_header
      = Some [Lit (CHR 0x22), Conv 0 None L_none (CHR ''s''), Lit (CHR 0x22)]" by code_simp
  have "cstr (l @ [NUL]) = l" using l(3) by (rule cstr_app)
  then have "c_snprintf 256 fmt_header [A_str (l @ [NUL])] = Inr ([CHR 0x22] @ l @ [CHR 0x22, NUL], 5)"
    using l(5) by (simp add: c_snprintf_def c_format_def dirs str_arg_def terminated_def pad_left_def)
  moreover have "cstr ([CHR 0x22] @ l @ [CHR 0x22, NUL]) = [CHR 0x22] @ l @ [CHR 0x22]"
    using l(3) cstr_app[of "[CHR 0x22] @ l @ [CHR 0x22]" "[]"] by simp
  then have "header_ok ([CHR 0x22] @ l @ [CHR 0x22, NUL])"
    using l by (simp add: header_ok_def terminated_def)
  ultimately show ?thesis by blast
qed

lemma print_labels_section:
  assumes "\<forall>l \<in> set ls. good_label l" "sstat_ok env ss" "tasks_ok env ps n"
  shows "section_ok (print_labels env flags ls ss ps n) (length ls * SECTION_MAX)"
  using assms
proof (induction ls arbitrary: ss)
  case Nil
  have "print_labels env flags [] ss ps n = Inr" by (simp add: fun_eq_iff)
  then show ?case by (simp add: json_emits_skip)
next
  case (Cons l ls)
  show ?case
  proof (cases "lab_valid l")
    case False
    then have "print_labels env flags (l # ls) ss ps n = print_labels env flags ls ss ps n"
      by (simp add: fun_eq_iff)
    then show ?thesis using Cons.IH[of ss] Cons.prems section_le by fastforce
  next
    case True
    from Cons.prems(1) obtain hp k where hp: "c_snprintf 256 fmt_header [A_str (lab_label l @ [NUL])] = Inr (hp, k)"
      "header_ok hp" using header_good[of "lab_label l"] by (auto simp: good_label_def)
    with Cons.prems obtain f ss' where f: "section_ok f SECTION_MAX" "sstat_ok env ss'"
      "\<And>op. lab_prifunc l env flags hp ss ps n op = and_then (f op) (\<lambda>op. Inr (ss', op))"
      unfolding good_label_def by (metis list.set_intros(1))
    have "print_labels env flags (l # ls) ss ps n = (\<lambda>op. and_then (f op) (print_labels env flags ls ss' ps n))"
      using True hp f(3) by (simp add: fun_eq_iff and_then_assoc)
    moreover have "section_ok (print_labels env flags ls ss' ps n) (length ls * SECTION_MAX)"
      by (rule Cons.IH) (use Cons.prems f(2) in auto)
    ultimately show ?thesis using json_emits_seq[OF f(1)] by simp
  qed
qed

section \<open>The tasks after the replacement\<close>

text \<open>What the replacement needs: a terminated text without control characters.\<close>

definition printable :: "bytes \<Rightarrow> bool" where
  "printable s \<longleftrightarrow> terminated s \<and> (\<forall>c \<in> set (cstr s). 32 \<le> (of_char c :: nat))"

lemma replace_quotes_ok: "printable s \<Longrightarrow> str_ok (replace_quotes s)"
  by (induction s) (auto simp: printable_def str_ok_def cstr_def clean_char_def split: if_splits)

definition raw_task_ok :: "tstat \<Rightarrow> bool" where
  "raw_task_ok p \<longleftrightarrow> printable (tg_name (ts_gen p)) \<and> printable (tg_cmdline (ts_gen p))
     \<and> 4 \<le> length (tg_cmdline (ts_gen p))
     \<and> str_ok (tg_container (ts_gen p)) \<and> clean_char (tg_state (ts_gen p))
     \<and> (tp_state (ts_gpu p) = NUL \<or> clean_char (tp_state (ts_gpu p)))"

definition dev_ok :: "jenv \<Rightarrow> devtstat \<Rightarrow> bool" where
  "dev_ok env dev \<longleftrightarrow> ntaskall dev = length (taskall dev) \<and> ntaskall dev \<le> MAX_ROWS
     \<and> (\<forall>p \<in> set (taskall dev). raw_task_ok p)
     \<and> (taskall dev \<noteq> [] \<longrightarrow> \<not> skipped (hd (taskall dev))) \<and> hertz env \<noteq> 0"

lemma stars_ok: "str_ok (''***'' @ NUL # rest)"
  by (simp add: str_ok_def cstr_def clean_char_def)

lemma sanitize_task_ok:
  assumes "raw_task_ok p"
  shows "\<exists>q. sanitize_task env p = Inr q \<and> tstat_ok q \<and> skipped q = skipped p"
  using assms replace_quotes_ok stars_ok
  by (auto simp: sanitize_task_def Let_def c_strcpy_def tstat_ok_def raw_task_ok_def skipped_def)

lemma sanitize_tasks_ok:
  assumes "\<forall>p \<in> set ps. raw_task_ok p"
  shows "\<exists>qs. sanitize_tasks env (length ps) ps = Inr qs \<and> length qs = length ps
    \<and> (\<forall>q \<in> set qs. tstat_ok q) \<and> map skipped qs = map skipped ps"
  using assms
proof (induction ps)
  case (Cons p ps)
  then obtain qs where "sanitize_tasks env (length ps) ps = Inr qs" "length qs = length ps"
    "\<forall>q \<in> set qs. tstat_ok q" "map skipped qs = map skipped ps" by auto
  moreover obtain q where "sanitize_task env p = Inr q" "tstat_ok q" "skipped q = skipped p"
    using sanitize_task_ok Cons.prems by (metis list.set_intros(1))
  ultimately show ?case by simp
qed simp

lemma sanitized_dev_ok:
  assumes "dev_ok env dev"
  shows "\<exists>qs. sanitize_tasks env (ntaskall dev) (taskall dev) = Inr qs \<and> tasks_ok env qs (ntaskall dev)"
proof -
  from assms sanitize_tasks_ok[of "taskall dev" env] obtain qs where
    qs: "sanitize_tasks env (ntaskall dev) (taskall dev) = Inr qs" "length qs = ntaskall dev"
      "\<forall>q \<in> set qs. tstat_ok q" "map skipped qs = map skipped (taskall dev)" by (auto simp: dev_ok_def)
  then have "0 < ntaskall dev \<Longrightarrow> skipped (hd qs) = skipped (hd (taskall dev))"
    using assms by (cases qs; cases "taskall dev") (auto simp: dev_ok_def)
  with qs assms show ?thesis by (auto simp: dev_ok_def tasks_ok_def)
qed

section \<open>The whole answer\<close>

lemma fmt_general_ok:
  "format_check (AS ([], JVal)) fmt_general [K_str (Some 64), K_long, K_int] = Some (ANum [FObj], 134)"
  by code_simp

lemma put_general_emits:
  assumes "str_ok (nodename env)" "length (cstr (nodename env)) \<le> 64"
  shows "json_emits (AS ([], JVal)) (put_general env curtime numsecs) (ANum [FObj]) 134"
proof (rule json_emitsI)
  fix st assume st: "gam (AS ([], JVal)) st"
  have "list_all2 has_kind [A_str (nodename env), A_long curtime, A_int numsecs] [K_str (Some 64), K_long, K_int]"
    using assms by (simp add: str_ok_def)
  from format_check_sound[OF fmt_general_ok this st] obtain t st' where
    t: "c_format fmt_general [A_str (nodename env), A_long curtime, A_int numsecs] = Inr t" "length t \<le> 134"
    and st': "jrun st t = Some st'" "gam (ANum [FObj]) st'" by blast
  have run: "put_general env curtime numsecs = (\<lambda>op. output_samp op (t @ [NUL]) (int (length t)))"
    using t by (simp add: put_general_def c_snprintf_def fun_eq_iff)
  have "json_emits (AS st) (\<lambda>op. output_samp op (t @ [NUL]) (int (length t))) (ANum [FObj]) 134"
    by (rule json_emits_bytes) (use st' t in \<open>auto simp: OUTBUF_DEF_SIZE_def\<close>)
  from json_emitsD[OF this, of st]
  show "ob.emits (put_general env curtime numsecs) (\<lambda>t. \<exists>st'. jrun st t = Some st' \<and> gam (ANum [FObj]) st') 134"
    unfolding run by simp
qed

lemma end_emits: "json_emits (ANum [FObj]) (\<lambda>op. put_lit op ''}\<newline>'') (AS ([], JAfter)) 2"
  by (rule json_emits_lit) (simp_all add: alit_def after_step_def is_ws_def OUTBUF_DEF_SIZE_def)

definition answer :: "jenv \<Rightarrow> 32 word \<Rightarrow> 64 word \<Rightarrow> 32 word \<Rightarrow> labeldef list \<Rightarrow> sstat \<Rightarrow> tstat list \<Rightarrow> nat
    \<Rightarrow> output_t \<Rightarrow> output_t res" where
  "answer env flags curtime numsecs tbl ss ps n op =
     and_then (put_general env curtime numsecs op) (\<lambda>op.
     and_then (print_labels env flags tbl ss ps n op) (\<lambda>op. put_lit op ''}\<newline>''))"

lemma answer_emits:
  assumes "str_ok (nodename env)" "length (cstr (nodename env)) \<le> 64"
    and "sstat_ok env ss" "tasks_ok env ps n" "\<forall>l \<in> set tbl. good_label l"
  shows "json_emits (AS ([], JVal)) (answer env flags curtime numsecs tbl ss ps n) (AS ([], JAfter))
           (134 + (length tbl * SECTION_MAX + 2))"
  unfolding answer_def[abs_def]
  by (intro json_emits_seq[OF put_general_emits] json_emits_seq[OF print_labels_section] end_emits assms)

lemma jsonout_runs:
  assumes "jsondef labeldefs pd op = Inr (0, tbl, op)"
    and "sanitize_tasks env (ntaskall dev) (taskall dev) = Inr qs"
    and "answer env flags curtime numsecs tbl ss qs (ntaskall dev) op = Inr op'"
  shows "jsonout env hook flags pd curtime numsecs dev ss op conn
    = and_then (output_samp_done hook op' conn) (\<lambda>(op, conn). Inr (0, op, conn))"
  using assms by (auto simp: jsonout_def answer_def and_then_Inr_iff)
section \<open>Which labels are accepted\<close>

lemma mark_label_shape:
  "mark_label tbl l = Some tbl' \<Longrightarrow>
     map (\<lambda>x. (lab_label x, lab_prifunc x)) tbl' = map (\<lambda>x. (lab_label x, lab_prifunc x)) tbl"
  by (induction tbl arbitrary: tbl') (auto split: if_splits)

lemma jsondef_loop_shape:
  "jsondef_loop tbl pd op = Inr (0, tbl', op') \<Longrightarrow>
     op' = op \<and> map (\<lambda>x. (lab_label x, lab_prifunc x)) tbl' = map (\<lambda>x. (lab_label x, lab_prifunc x)) tbl"
proof (induction tbl pd op rule: jsondef_loop.induct)
  case (1 tbl pd op)
  let ?tok = "takeWhile (\<lambda>c. c \<noteq> CHR '','') pd"
  show ?case
  proof (cases "pd = []")
    case True
    with 1(2) show ?thesis by (simp add: jsondef_loop.simps)
  next
    case False
    show ?thesis
    proof (cases "mark_label tbl ?tok")
      case None
      with False 1(2) show ?thesis
        by (subst (asm) jsondef_loop.simps) (auto simp: Let_def EINVAL_def and_then_Inr_iff comp_def split: if_splits)
    next
      case (Some tbl1)
      with False 1(2) have "jsondef_loop tbl1 (drop (Suc (length ?tok)) pd) op = Inr (0, tbl', op')"
        by (subst (asm) jsondef_loop.simps) (simp add: Let_def)
      with 1(1)[OF False refl refl Some] mark_label_shape[OF Some] show ?thesis by simp
    qed
  qed
qed

lemma jsondef_shape:
  "jsondef tbl pd op = Inr (0, tbl', op') \<Longrightarrow>
     op' = op \<and> map (\<lambda>x. (lab_label x, lab_prifunc x)) tbl' = map (\<lambda>x. (lab_label x, lab_prifunc x)) tbl"
  using jsondef_loop_shape by (auto simp: jsondef_def and_then_Inr_iff EINVAL_def split: if_splits)

lemma jsondef_good:
  assumes "jsondef labeldefs pd op = Inr (0, tbl, op')"
  shows "\<forall>l \<in> set tbl. good_label l" "length tbl = 25" "op' = op"
proof -
  from jsondef_shape[OF assms] have eq:
    "map (\<lambda>x. (lab_label x, lab_prifunc x)) tbl = map (\<lambda>x. (lab_label x, lab_prifunc x)) labeldefs"
    and op: "op' = op" by auto
  show "op' = op" by (rule op)
  from eq have "length tbl = length labeldefs" by (rule map_eq_imp_length_eq)
  then show "length tbl = 25" by (simp add: labeldefs_def)
  show "\<forall>l \<in> set tbl. good_label l"
  proof
    fix l assume "l \<in> set tbl"
    then have "(lab_label l, lab_prifunc l) \<in> set (map (\<lambda>x. (lab_label x, lab_prifunc x)) labeldefs)"
      unfolding eq[symmetric] by simp
    then obtain l' where "l' \<in> set labeldefs" "lab_label l' = lab_label l" "lab_prifunc l' = lab_prifunc l" by auto
    with labeldefs_good[of l'] show "good_label l" by (simp add: good_label_def)
  qed
qed

section \<open>Hidden command lines\<close>

definition with_cmdline :: "bytes \<Rightarrow> tstat \<Rightarrow> tstat" where
  "with_cmdline c p = p\<lparr>ts_gen := (ts_gen p)\<lparr>tg_cmdline := c\<rparr>\<rparr>"

lemma with_cmdline_sel [simp]:
  "tg_cmdline (ts_gen (with_cmdline c p)) = c" "ts_cpu (with_cmdline c p) = ts_cpu p"
  "ts_mem (with_cmdline c p) = ts_mem p" "ts_dsk (with_cmdline c p) = ts_dsk p"
  "ts_net (with_cmdline c p) = ts_net p" "ts_gpu (with_cmdline c p) = ts_gpu p"
  "tg_pid (ts_gen (with_cmdline c p)) = tg_pid (ts_gen p)"
  "tg_tgid (ts_gen (with_cmdline c p)) = tg_tgid (ts_gen p)"
  "tg_isproc (ts_gen (with_cmdline c p)) = tg_isproc (ts_gen p)"
  "skipped (with_cmdline c p) = skipped p"
  by (simp_all add: with_cmdline_def skipped_def)

definition same_shown :: "tstat \<Rightarrow> tstat \<Rightarrow> bool" where
  "same_shown p q \<longleftrightarrow> (\<exists>c. q = with_cmdline c p \<and> terminated c \<and> terminated (tg_cmdline (ts_gen p))
     \<and> cstr c = cstr (tg_cmdline (ts_gen p)))"

definition same_arg :: "parg \<Rightarrow> parg \<Rightarrow> bool" where
  "same_arg a b \<longleftrightarrow> a = b
     \<or> (\<exists>s t. a = A_str s \<and> b = A_str t \<and> terminated s \<and> terminated t \<and> cstr s = cstr t)"

lemma convert_same: "same_arg a b \<Longrightarrow> convert l p c a = convert l p c b"
  by (auto simp: same_arg_def str_arg_def split: option.splits)

lemma apply_dirs_same: "list_all2 same_arg as bs \<Longrightarrow> apply_dirs ds as = apply_dirs ds bs"
proof (induction ds as arbitrary: bs rule: apply_dirs.induct)
  case (4 w p l c ds a as)
  then obtain b bs' where bs: "bs = b # bs'" "same_arg a b" "list_all2 same_arg as bs'"
    by (auto simp: list_all2_Cons1)
  with 4(1)[OF _ bs(3)] convert_same[OF bs(2), of l p c] show ?case
    by (cases "convert l p c b") auto
qed (auto simp: list_all2_Cons1)

lemma put_line_same: "list_all2 same_arg as bs \<Longrightarrow> put_line op fmt as = put_line op fmt bs"
  using apply_dirs_same by (simp add: put_line_def c_snprintf_def c_format_def split: option.splits)

lemma same_arg_refl [simp]: "same_arg a a"
  by (simp add: same_arg_def)

lemma task_loop_same:
  assumes "list_all2 same_shown ps qs" "\<And>p q. same_shown p q \<Longrightarrow> body p = body q"
  shows "task_loop body i k ps = task_loop body i k qs"
proof
  fix op
  show "task_loop body i k ps op = task_loop body i k qs op"
    using assms(1)
  proof (induction k arbitrary: i ps qs op)
    case (Suc k)
    show ?case
    proof (cases ps)
      case (Cons p ps')
      with Suc.prems obtain q qs' where qs: "qs = q # qs'" "same_shown p q" "list_all2 same_shown ps' qs'"
        by (auto simp: list_all2_Cons1)
      have "task_loop body j k ps' op' = task_loop body j k qs' op'" for j op' by (rule Suc.IH[OF qs(3)])
      then have "task_loop body j k ps' = task_loop body j k qs'" for j by (rule ext)
      moreover have "skipped q = skipped p" using qs(2) by (auto simp: same_shown_def)
      ultimately show ?thesis using Cons qs(1) assms(2)[OF qs(2)] by simp
    qed (use Suc.prems in simp)
  qed simp
qed

text \<open>The printers of the system level do not look at the tasks, those of the tasks only at what is shown.\<close>

lemma task_printers_same:
  assumes "list_all2 same_shown ps qs"
  shows "json_print_PRG env flags hp ss ps n = json_print_PRG env flags hp ss qs n"
    and "json_print_PRC env flags hp ss ps n = json_print_PRC env flags hp ss qs n"
    and "json_print_PRM env flags hp ss ps n = json_print_PRM env flags hp ss qs n"
    and "json_print_PRD env flags hp ss ps n = json_print_PRD env flags hp ss qs n"
    and "json_print_PRN env flags hp ss ps n = json_print_PRN env flags hp ss qs n"
    and "json_print_PRE env flags hp ss ps n = json_print_PRE env flags hp ss qs n"
proof -
  show "json_print_PRG env flags hp ss ps n = json_print_PRG env flags hp ss qs n"
    unfolding json_print_PRG_def[abs_def]
  proof (rule arg_cong[where f = "array_section hp"] , rule task_loop_same[OF assms], rule ext)
    fix p q op assume "same_shown p q"
    then obtain c where c: "q = with_cmdline c p" "terminated c" "terminated (tg_cmdline (ts_gen p))"
      "cstr c = cstr (tg_cmdline (ts_gen p))" by (auto simp: same_shown_def)
    then have arg: "same_arg (A_str (tg_cmdline (ts_gen p))) (A_str c)" by (simp add: same_arg_def)
    have gen: "ts_gen q = (ts_gen p)\<lparr>tg_cmdline := c\<rparr>" by (simp add: c(1) with_cmdline_def)
    show "(let (st, exitcode) = exit_status (tg_excode (ts_gen p))
       in and_then (at (tg_container (ts_gen p)) 0) (\<lambda>c.
          let cid = (if c \<noteq> NUL then tg_container (ts_gen p) else ''-'' @ [NUL])
          in put_line op fmt_PRG
            [A_int (tg_pid (ts_gen p)), A_str (tg_name (ts_gen p)), A_chr (tg_state (ts_gen p)),
             A_int (tg_ruid (ts_gen p)), A_int (tg_rgid (ts_gen p)), A_int (tg_tgid (ts_gen p)),
             A_int (tg_nthr (ts_gen p)), A_str st, A_int exitcode, A_long (tg_btime (ts_gen p)),
             A_str (tg_cmdline (ts_gen p)), A_int (tg_ppid (ts_gen p)),
             A_int (tg_nthrrun (ts_gen p)), A_int (tg_nthrslpi (ts_gen p)),
             A_int (tg_nthrslpu (ts_gen p)), A_int (tg_euid (ts_gen p)),
             A_int (tg_egid (ts_gen p)), A_long (tg_elaps (ts_gen p)),
             A_int (if tg_isproc (ts_gen p) \<noteq> 0 then 1 else 0), A_str cid]))
     = (let (st, exitcode) = exit_status (tg_excode (ts_gen q))
       in and_then (at (tg_container (ts_gen q)) 0) (\<lambda>c.
          let cid = (if c \<noteq> NUL then tg_container (ts_gen q) else ''-'' @ [NUL])
          in put_line op fmt_PRG
            [A_int (tg_pid (ts_gen q)), A_str (tg_name (ts_gen q)), A_chr (tg_state (ts_gen q)),
             A_int (tg_ruid (ts_gen q)), A_int (tg_rgid (ts_gen q)), A_int (tg_tgid (ts_gen q)),
             A_int (tg_nthr (ts_gen q)), A_str st, A_int exitcode, A_long (tg_btime (ts_gen q)),
             A_str (tg_cmdline (ts_gen q)), A_int (tg_ppid (ts_gen q)),
             A_int (tg_nthrrun (ts_gen q)), A_int (tg_nthrslpi (ts_gen q)),
             A_int (tg_nthrslpu (ts_gen q)), A_int (tg_euid (ts_gen q)),
             A_int (tg_egid (ts_gen q)), A_long (tg_elaps (ts_gen q)),
             A_int (if tg_isproc (ts_gen q) \<noteq> 0 then 1 else 0), A_str cid]))"
      unfolding gen using arg
      by (auto simp: Let_def split_def intro!: arg_cong[where f = "and_then _"] ext put_line_same)
  qed
qed (auto simp: json_print_PRC_def json_print_PRM_def json_print_PRD_def json_print_PRN_def json_print_PRE_def
       fun_eq_iff same_shown_def intro!: arg_cong[where f = "\<lambda>l. array_section hp l _"] task_loop_same[OF assms])

lemma good_same:
  assumes "list_all2 same_shown ps qs" "l \<in> set labeldefs"
  shows "lab_prifunc l env flags hp ss ps n = lab_prifunc l env flags hp ss qs n"
  using assms(2) task_printers_same[OF assms(1)]
  unfolding labeldefs_def
  by (auto simp: leaving_def fun_eq_iff json_print_CPU_def json_print_cpu_def json_print_CPL_def json_print_GPU_def
      json_print_MEM_def json_print_SWP_def json_print_PAG_def json_print_PSI_def json_print_LVM_def
      json_print_MDD_def json_print_DSK_def json_print_NFM_def json_print_NFC_def json_print_NFS_def
      json_print_NET_def json_print_IFB_def json_print_NUM_def json_print_NUC_def json_print_LLC_def)

lemma print_labels_same:
  assumes "list_all2 same_shown ps qs"
    and "\<forall>l \<in> set tbl. \<exists>l' \<in> set labeldefs. lab_prifunc l = lab_prifunc l'"
  shows "print_labels env flags tbl ss ps n op = print_labels env flags tbl ss qs n op"
  using assms(2)
proof (induction tbl arbitrary: ss op)
  case (Cons l tbl)
  have "lab_prifunc l env flags hp ss ps n = lab_prifunc l env flags hp ss qs n" for hp ss
    using Cons.prems good_same[OF assms(1)] by fastforce
  with Cons show ?case by (auto intro!: arg_cong[where f = "and_then _"] ext)
qed simp

lemma sanitize_hidden:
  assumes "hidecmdline env \<noteq> 0"
    and "list_all2 (\<lambda>p q. \<exists>c. q = with_cmdline c p \<and> 4 \<le> length c \<and> 4 \<le> length (tg_cmdline (ts_gen p))) ps qs"
  shows "\<exists>ps' qs'. sanitize_tasks env (length ps) ps = Inr ps' \<and> sanitize_tasks env (length ps) qs = Inr qs'
    \<and> list_all2 same_shown ps' qs'"
  using assms(2)
proof (induction ps qs rule: list_all2_induct)
  case (Cons p ps q qs)
  then obtain c where c: "q = with_cmdline c p" "4 \<le> length c" "4 \<le> length (tg_cmdline (ts_gen p))" by blast
  define p' where "p' = p\<lparr>ts_gen := (ts_gen p)\<lparr>tg_name := replace_quotes (tg_name (ts_gen p)),
      tg_cmdline := ''***'' @ NUL # drop 4 (tg_cmdline (ts_gen p))\<rparr>\<rparr>"
  have "sanitize_task env p = Inr p'"
    using assms(1) c(3) by (simp add: sanitize_task_def c_strcpy_def p'_def eval_nat_numeral)
  moreover have "sanitize_task env q = Inr (with_cmdline (''***'' @ NUL # drop 4 c) p')"
    using assms(1) c(1,2) by (simp add: sanitize_task_def c_strcpy_def p'_def with_cmdline_def eval_nat_numeral)
  moreover have "same_shown p' (with_cmdline (''***'' @ NUL # drop 4 c) p')"
    by (auto simp: same_shown_def p'_def cstr_def)
  ultimately show ?case using Cons.IH by auto
qed simp

section \<open>A skipped first task\<close>

lemma put_lit_emits:
  assumes "length s \<le> OUTBUF_DEF_SIZE"
  shows "ob.emits (\<lambda>op. put_lit op s) (\<lambda>t. t = s) (length s)"
proof -
  have "ob.emits (\<lambda>op. output_samp op s (int (length s))) (\<lambda>t. t = s) (length s)"
    using assms by (intro ob.emits_chunk) simp_all
  then show ?thesis
    unfolding ob.emits_def put_lit_def using output_samp_prefix[of s "s @ [NUL]"] by (simp add: out_ok_def)
qed

lemma comma_emits: "ob.emits (comma i) (\<lambda>t. t = (if i = 0 then [] else '', '')) 2"
proof (cases "i = 0")
  case True
  then have eq: "comma i = Inr" by (simp add: comma_def fun_eq_iff)
  show ?thesis unfolding eq by (rule_tac ob.emits_skip) (simp add: True)
next
  case False
  then have "comma i = (\<lambda>op. put_lit op '', '')" by (simp add: comma_def fun_eq_iff)
  moreover have "ob.emits (\<lambda>op. put_lit op '', '') (\<lambda>t. t = '', '') 2"
    by (rule ob.emits_mono[OF put_lit_emits]) (simp_all add: OUTBUF_DEF_SIZE_def)
  ultimately show ?thesis using False by simp
qed

lemma task_loop_emits:
  assumes "k \<le> length ps" "\<And>p. p \<in> set ps \<Longrightarrow> ob.emits (body p) (\<lambda>_. True) L"
  shows "ob.emits (task_loop body i k ps)
    (\<lambda>t. 0 < i \<longrightarrow> (\<exists>q \<in> set (take k ps). \<not> skipped q) \<longrightarrow> (\<exists>u. t = '', '' @ u)) (k * (L + 2))"
  using assms
proof (induction k arbitrary: i ps)
  case 0
  have eq: "task_loop body i 0 ps = Inr" by (simp add: fun_eq_iff)
  show ?case unfolding eq by (rule ob.emits_skip) simp
next
  case (Suc k)
  from Suc.prems(1) obtain p qs where ps: "ps = p # qs" by (cases ps) auto
  have rest: "ob.emits (task_loop body (Suc i) k qs)
      (\<lambda>t. 0 < Suc i \<longrightarrow> (\<exists>q \<in> set (take k qs). \<not> skipped q) \<longrightarrow> (\<exists>u. t = '', '' @ u)) (k * (L + 2))"
    by (rule Suc.IH) (use Suc.prems ps in auto)
  show ?case
  proof (cases "skipped p")
    case True
    then have eq: "task_loop body i (Suc k) ps = task_loop body (Suc i) k qs" by (simp add: ps fun_eq_iff)
    show ?thesis unfolding eq by (rule ob.emits_mono[OF rest]) (use True ps in auto)
  next
    case False
    then have eq: "task_loop body i (Suc k) ps
        = (\<lambda>op. and_then (comma i op) (\<lambda>op. and_then (body p op) (task_loop body (Suc i) k qs)))"
      by (simp add: ps fun_eq_iff)
    have "ob.emits (\<lambda>op. and_then (comma i op) (\<lambda>op. and_then (body p op) (task_loop body (Suc i) k qs)))
        (\<lambda>t. 0 < i \<longrightarrow> (\<exists>u. t = '', '' @ u)) (2 + (L + k * (L + 2)))"
    proof (rule ob.emits_seq[OF comma_emits])
      fix t :: string assume t: "t = (if i = 0 then [] else '', '')"
      have "ob.emits (\<lambda>op. and_then (body p op) (task_loop body (Suc i) k qs)) (\<lambda>_. True) (L + k * (L + 2))"
        by (rule ob.emits_seq[OF Suc.prems(2)], simp add: ps) (rule ob.emits_mono[OF rest], simp_all)
      then show "ob.emits (\<lambda>op. and_then (body p op) (task_loop body (Suc i) k qs))
          (\<lambda>u. 0 < i \<longrightarrow> (\<exists>u'. t @ u = '', '' @ u')) (L + k * (L + 2))"
        by (rule ob.emits_mono) (use t in auto)
    qed
    then show ?thesis unfolding eq by (rule ob.emits_mono) auto
  qed
qed

lemma elem_ok_emits: "elem_ok stk f L \<Longrightarrow> ob.emits f (\<lambda>_. True) L"
  by (rule ob.emits_mono[OF json_emitsD[where st = "(FArr # stk, JVal)"]]) (auto simp: gam_def)

lemma bad_array:
  assumes "header_ok hp" "k \<le> length ps" "\<And>p. p \<in> set ps \<Longrightarrow> elem_ok [FObj] (body p) L"
    and "ps = p # qs" "skipped p" "\<exists>q \<in> set (take k ps). \<not> skipped q"
  shows "ob.emits (array_section hp (task_loop body 0 k ps)) (\<lambda>t. jrun ([FObj], JAfter) t = None)
           (k * (L + 2) + 11)"
proof -
  from assms(4-6) obtain k' where k: "k = Suc k'" "\<exists>q \<in> set (take k' qs). \<not> skipped q"
    by (cases k) auto
  have loop: "task_loop body 0 k ps = task_loop body (Suc 0) k' qs"
    using assms(4,5) k(1) by (simp add: fun_eq_iff)
  have "ob.emits (task_loop body (Suc 0) k' qs)
      (\<lambda>t. 0 < Suc 0 \<longrightarrow> (\<exists>q \<in> set (take k' qs). \<not> skipped q) \<longrightarrow> (\<exists>u. t = '', '' @ u)) (k' * (L + 2))"
    by (rule task_loop_emits) (use assms k elem_ok_emits in auto)
  then have bad: "ob.emits (task_loop body 0 k ps) (\<lambda>t. jrun ([FArr, FObj], JValOrEnd) t = None) (k' * (L + 2))"
    unfolding loop by (rule ob.emits_mono) (use k(2) in \<open>auto simp: val_step_def is_ws_def is_digit_def\<close>)
  have st: "gam (ANum [FObj]) ([FObj], JAfter)" by (simp add: gam_def)
  have close: "ob.emits (\<lambda>op. put_lit op '']'') (\<lambda>_. True) 1"
    by (rule ob.emits_mono[OF put_lit_emits]) (simp_all add: OUTBUF_DEF_SIZE_def)
  have "ob.emits (array_section hp (task_loop body 0 k ps)) (\<lambda>t. jrun ([FObj], JAfter) t = None)
      (10 + (k' * (L + 2) + 1))"
    unfolding array_section_def[abs_def]
  proof (rule ob.emits_seq[OF json_emitsD[OF json_emits_br[OF assms(1)] st]])
    fix t assume "\<exists>st'. jrun ([FObj], JAfter) t = Some st' \<and> gam (AS ([FArr, FObj], JValOrEnd)) st'"
    then have t: "jrun ([FObj], JAfter) t = Some ([FArr, FObj], JValOrEnd)" by simp
    show "ob.emits (\<lambda>op. and_then (task_loop body 0 k ps op) (\<lambda>op. put_lit op '']''))
        (\<lambda>u. jrun ([FObj], JAfter) (t @ u) = None) (k' * (L + 2) + 1)"
      by (rule ob.emits_seq[OF bad]) (use t close in \<open>auto simp: jrun_append intro: ob.emits_mono\<close>)
  qed
  then show ?thesis by (rule ob.emits_mono) (use k in auto)
qed

lemma PRM_rows:
  assumes "tstat_ok p"
  shows "elem_ok [FObj] (\<lambda>op. put_line op fmt_PRM
         [A_int (tg_pid (ts_gen p)), A_long (tm_vmem (ts_mem p)), A_long (tm_rmem (ts_mem p)),
          A_long (tm_vexec (ts_mem p)), A_long (tm_vgrow (ts_mem p)),
          A_long (tm_rgrow (ts_mem p)), A_long (tm_minflt (ts_mem p)),
          A_long (tm_majflt (ts_mem p)), A_long (tm_vlibs (ts_mem p)),
          A_long (tm_vdata (ts_mem p)), A_long (tm_vstack (ts_mem p)),
          A_long (tm_vlock (ts_mem p)), A_long (tm_vswap (ts_mem p)),
          A_long (if tm_pmem (ts_mem p) = - 1 then 0 else tm_pmem (ts_mem p))]) 423"
  by (rule json_emits_line[OF fmt_PRM_ok]) (simp_all add: LINE_BUF_SIZE_def)

section \<open>Division of numbers that are not negative\<close>

lemma sint_word_of_int_in:
  "- (2 ^ (LENGTH('a::len) - 1)) \<le> i \<Longrightarrow> i < 2 ^ (LENGTH('a) - 1) \<Longrightarrow> sint (word_of_int i :: 'a word) = i"
  by (simp add: sint_sbintrunc' signed_take_bit_int_eq_self)

lemma c_sdiv_nonneg:
  assumes "0 \<le> sint a" "0 < sint b"
  shows "c_sdiv a b = Inr (word_of_int (sint a div sint b))"
proof (cases "sint a = 0")
  case True
  with assms show ?thesis by (auto simp: c_sdiv_def)
next
  case False
  with assms show ?thesis by (auto simp: c_sdiv_def)
qed

section \<open>Inputs for the witnesses\<close>

definition zero_sstat :: sstat where
  "zero_sstat =
     \<lparr>ss_cpu = \<lparr>cpu_nrcpu = 0, cpu_devint = 0, cpu_csw = 0, cpu_lavg1 = Finite
      False 0 0, cpu_lavg5 = Finite False 0 0, cpu_lavg15 = Finite False 0 0, cpu_all =
      \<lparr>cp_stime = 0, cp_utime = 0, cp_ntime = 0, cp_itime = 0, cp_wtime = 0, cp_Itime =
      0, cp_Stime = 0, cp_steal = 0, cp_guest = 0, cp_freqcnt = \<lparr>fc_maxfreq = 0, fc_cnt =
      0, fc_ticks = 0\<rparr>, cp_instr = 0, cp_cycle = 0\<rparr>, cpu_cpu = [\<lparr>cp_stime =
      0, cp_utime = 0, cp_ntime = 0, cp_itime = 0, cp_wtime = 0, cp_Itime = 0, cp_Stime = 0,
      cp_steal = 0, cp_guest = 0, cp_freqcnt = \<lparr>fc_maxfreq = 0, fc_cnt = 0, fc_ticks =
      0\<rparr>, cp_instr = 0, cp_cycle = 0\<rparr>]\<rparr>, ss_mem = \<lparr>mem_physmem = 0,
      mem_freemem = 0, mem_cachemem = 0, mem_buffermem = 0, mem_slabmem = 0, mem_cachedrt = 0,
      mem_slabreclaim = 0, mem_vmwballoon = 0, mem_shmem = 0, mem_shmrss = 0, mem_shmswp = 0,
      mem_pagetables = 0, mem_hugepagesz = 0, mem_tothugepage = 0, mem_freehugepage = 0,
      mem_tcpsock = 0, mem_udpsock = 0, mem_totswap = 0, mem_freeswap = 0, mem_swapcached = 0,
      mem_committed = 0, mem_commitlim = 0, mem_allocstall = 0, mem_compactstall = 0,
      mem_numamigrate = 0, mem_pgmigrate = 0, mem_pgscans = 0, mem_pgsteal = 0, mem_pgins = 0,
      mem_pgouts = 0, mem_swins = 0, mem_swouts = 0, mem_oomkills = 0\<rparr>, ss_psi =
      \<lparr>prs_present = False, prs_cpusome = \<lparr>psi_avg10 = Finite False 0 0, psi_avg60
      = Finite False 0 0, psi_avg300 = Finite False 0 0, psi_total = 0\<rparr>, prs_memsome =
      \<lparr>psi_avg10 = Finite False 0 0, psi_avg60 = Finite False 0 0, psi_avg300 = Finite
      False 0 0, psi_total = 0\<rparr>, prs_memfull = \<lparr>psi_avg10 = Finite False 0 0,
      psi_avg60 = Finite False 0 0, psi_avg300 = Finite False 0 0, psi_total = 0\<rparr>,
      prs_iosome = \<lparr>psi_avg10 = Finite False 0 0, psi_avg60 = Finite False 0 0,
      psi_avg300 = Finite False 0 0, psi_total = 0\<rparr>, prs_iofull = \<lparr>psi_avg10 =
      Finite False 0 0, psi_avg60 = Finite False 0 0, psi_avg300 = Finite False 0 0, psi_total =
      0\<rparr>\<rparr>, ss_dsk = \<lparr>dsk_lvm = [\<lparr>dk_name = [NUL], dk_io_ms = 0,
      dk_nread = 0, dk_ndisc = 0, dk_nrsect = 0, dk_nwrite = 0, dk_nwsect = 0, dk_avque = 0,
      dk_inflight = 0\<rparr>], dsk_mdd = [\<lparr>dk_name = [NUL], dk_io_ms = 0, dk_nread = 0,
      dk_ndisc = 0, dk_nrsect = 0, dk_nwrite = 0, dk_nwsect = 0, dk_avque = 0, dk_inflight =
      0\<rparr>], dsk_dsk = [\<lparr>dk_name = [NUL], dk_io_ms = 0, dk_nread = 0, dk_ndisc = 0,
      dk_nrsect = 0, dk_nwrite = 0, dk_nwsect = 0, dk_avque = 0, dk_inflight =
      0\<rparr>]\<rparr>, ss_nfs = \<lparr>nfs_nfsmounts = \<lparr>nfm_nrmounts = 0, nfm_nfsmnt
      = []\<rparr>, nfs_client = \<lparr>nc_rpccnt = 0, nc_rpcread = 0, nc_rpcwrite = 0,
      nc_rpcretrans = 0, nc_rpcautrefresh = 0\<rparr>, nfs_server = \<lparr>ns_rpccnt = 0,
      ns_rpcread = 0, ns_rpcwrite = 0, ns_nrbytes = 0, ns_nwbytes = 0, ns_rpcbadfmt = 0,
      ns_rpcbadaut = 0, ns_rpcbadcln = 0, ns_netcnt = 0, ns_nettcpcnt = 0, ns_netudpcnt = 0,
      ns_nettcpcon = 0, ns_rchits = 0, ns_rcmiss = 0, ns_rcnoca = 0\<rparr>\<rparr>, ss_net =
      \<lparr>net_tcp = \<lparr>tcp_InSegs = 0, tcp_OutSegs = 0, tcp_InErrs = 0, tcp_OutRsts =
      0, tcp_ActiveOpens = 0, tcp_PassiveOpens = 0, tcp_RetransSegs = 0\<rparr>, net_udpv4 =
      \<lparr>udp4_NoPorts = 0, udp4_InErrors = 0, udp4_InDatagrams = 0, udp4_OutDatagrams =
      0\<rparr>, net_udpv6 = \<lparr>udp6_Udp6InDatagrams = 0, udp6_Udp6OutDatagrams =
      0\<rparr>, net_ipv4 = \<lparr>ip4_InReceives = 0, ip4_OutRequests = 0, ip4_InDelivers = 0,
      ip4_ForwDatagrams = 0\<rparr>, net_ipv6 = \<lparr>ip6_Ip6InReceives = 0,
      ip6_Ip6OutRequests = 0, ip6_Ip6InDelivers = 0, ip6_Ip6OutForwDatagrams = 0\<rparr>,
      net_icmpv4 = \<lparr>icmp4_InMsgs = 0, icmp4_OutMsgs = 0\<rparr>, net_icmpv6 =
      \<lparr>icmp6_Icmp6InMsgs = 0, icmp6_Icmp6OutMsgs = 0\<rparr>\<rparr>, ss_intf =
      \<lparr>intf_intf = [\<lparr>if_name = [NUL], if_rpack = 0, if_rbyte = 0, if_rerrs = 0,
      if_rdrop = 0, if_spack = 0, if_sbyte = 0, if_serrs = 0, if_sdrop = 0, if_speed = 0,
      if_scollis = 0, if_rmultic = 0, if_duplex = 0\<rparr>]\<rparr>, ss_ifb =
      \<lparr>ifb_nrports = 0, ifb_ifb = []\<rparr>, ss_memnuma = \<lparr>memnuma_nrnuma = 0,
      memnuma_numa = []\<rparr>, ss_cpunuma = \<lparr>cpunuma_nrnuma = 0, cpunuma_numa =
      []\<rparr>, ss_llc = \<lparr>llc_nrllcs = 0, llc_perllc = []\<rparr>, ss_gpu =
      \<lparr>gpu_nrgpus = 0, gpu_gpu = []\<rparr>\<rparr>"

definition zero_tstat :: tstat where
  "zero_tstat =
     \<lparr>ts_gen = \<lparr>tg_tgid = 0, tg_pid = 0, tg_ppid = 0, tg_ruid = 0, tg_euid = 0,
      tg_rgid = 0, tg_egid = 0, tg_nthr = 0, tg_name = [NUL], tg_isproc = 1, tg_state = CHR
      ''S'', tg_excode = 0, tg_btime = 0, tg_elaps = 0, tg_cmdline = ''init'' @ [NUL],
      tg_nthrslpi = 0, tg_nthrslpu = 0, tg_nthrrun = 0, tg_container = [NUL], tg_wasinactive =
      0\<rparr>, ts_cpu = \<lparr>tc_utime = 0, tc_stime = 0, tc_nice = 0, tc_prio = 0,
      tc_curcpu = 0, tc_sleepavg = 0, tc_rundelay = 0, tc_blkdelay = 0\<rparr>, ts_mem =
      \<lparr>tm_vmem = 0, tm_rmem = 0, tm_vexec = 0, tm_vgrow = 0, tm_rgrow = 0, tm_minflt = 0,
      tm_majflt = 0, tm_vlibs = 0, tm_vdata = 0, tm_vstack = 0, tm_vlock = 0, tm_vswap = 0,
      tm_pmem = 0\<rparr>, ts_dsk = \<lparr>td_rio = 0, td_rsz = 0, td_wio = 0, td_wsz = 0,
      td_cwsz = 0\<rparr>, ts_net = \<lparr>tn_tcpsnd = 0, tn_tcpssz = 0, tn_tcprcv = 0,
      tn_tcprsz = 0, tn_udpsnd = 0, tn_udpssz = 0, tn_udprcv = 0, tn_udprsz = 0\<rparr>, ts_gpu
      = \<lparr>tp_state = CHR ''S'', tp_nrgpus = 0, tp_gpulist = 0, tp_gpubusy = 0, tp_membusy
      = 0, tp_memnow = 0, tp_memcum = 0, tp_sample = 0\<rparr>\<rparr>"

definition zero_jenv :: jenv where
  "zero_jenv =
     \<lparr>nodename = ''host'' @ [NUL], pagesize = 4096, hertz = 100, hidecmdline = 0,
      mul_frag = \<lambda>x. x, mul_occ = \<lambda>x. x, aflags = \<lparr>c_ACCTACTIVE = 1,
      c_IOSTAT = 2, c_NETATOP = 4, c_NETATOPD = 8, c_CGROUPV2 = 16, c_DOCKSTAT = 32, c_GPUSTAT =
      64, c_RAWLOGNG = 128, c_RRACCTACTIVE = 256, c_RRIOSTAT = 512, c_RRNETATOP = 1024,
      c_RRNETATOPD = 2048, c_RRCGRSTAT = 4096, c_RRDOCKSTAT = 8192, c_RRGPUSTAT =
      16384\<rparr>\<rparr>"


lemma zero_ok:
  "sstat_ok zero_jenv zero_sstat" "tstat_ok zero_tstat" "raw_task_ok zero_tstat" "str_ok (nodename zero_jenv)"
  "length (cstr (nodename zero_jenv)) \<le> 64" "hertz zero_jenv \<noteq> 0"
  by (simp_all add: zero_jenv_def zero_sstat_def zero_tstat_def sstat_ok_def cpu_ok_def counted_def named_def
      names_ok_def psi_ok_def tstat_ok_def raw_task_ok_def printable_def str_ok_def cstr_def clean_char_def
      dbl_below_def MAX_ROWS_def)

definition one_task :: "tstat \<Rightarrow> devtstat" where
  "one_task p = \<lparr>taskall = [p], procall = [0], procactive = [0], ntaskall = 1, nprocall = 1,
     nprocactive = 1, ntaskactive = 1, totrun = 0, totslpi = 0, totslpu = 0, totzombie = 0\<rparr>"

lemma zero_dev_ok: "dev_ok zero_jenv (one_task zero_tstat)"
  using zero_ok by (simp add: dev_ok_def one_task_def MAX_ROWS_def skipped_def zero_tstat_def)

lemma jsonout_value:
  assumes "out_ok op" "out_content op = []" "jsondef labeldefs pd op = Inr (0, tbl, op1)"
    and "str_ok (nodename env)" "length (cstr (nodename env)) \<le> 64"
    and "sstat_ok env ss" "dev_ok env dev"
  shows "\<exists>op' qs. out_ok op' \<and> json_valid (out_content op')
    \<and> answer env flags curtime numsecs tbl ss qs (ntaskall dev) op = Inr op'
    \<and> jsonout env hook flags pd curtime numsecs dev ss op conn
      = and_then (output_samp_done hook op' conn) (\<lambda>(op, conn). Inr (0, op, conn))"
proof -
  note tbl = jsondef_good[OF assms(3)]
  from sanitized_dev_ok[OF assms(7)] obtain qs where
    qs: "sanitize_tasks env (ntaskall dev) (taskall dev) = Inr qs" "tasks_ok env qs (ntaskall dev)" by blast
  have "gam (AS ([], JVal)) ([], JVal)" by simp
  from json_emitsD[OF answer_emits[OF assms(4-6) qs(2) tbl(1)] this] assms(1,2) tbl(2)
  obtain op' t where "answer env flags curtime numsecs tbl ss qs (ntaskall dev) op = Inr op'" "out_ok op'"
    "out_content op' = t" "jrun ([], JVal) t = Some ([], JAfter)"
    unfolding ob.emits_def by (fastforce simp: SECTION_MAX_def MAX_ROWS_def)
  moreover from this(4) have "json_valid t" by (simp add: json_valid_def accepting_def)
  ultimately show ?thesis using jsonout_runs[OF _ qs(1)] assms(3) tbl(3) by metis
qed

section \<open>Properties\<close>

text \<open>
  C2. For an accepted list of labels and a well-formed sample, \<open>jsonout\<close> writes exactly one JSON
  value (RFC 8259, down to the last byte) and hands it to \<open>output_samp_done\<close>; no line buffer and no
  output buffer is overrun, whatever the counters are.
\<close>

theorem jsonout_valid_json:
  assumes "out_ok op" "out_content op = []" "jsondef labeldefs pd op = Inr (0, tbl, op1)"
    and "str_ok (nodename env)" "length (cstr (nodename env)) \<le> 64"
    and "sstat_ok env ss" "dev_ok env dev"
  shows "\<exists>op'. out_ok op' \<and> json_valid (out_content op')
    \<and> jsonout env hook flags pd curtime numsecs dev ss op conn
      = and_then (output_samp_done hook op' conn) (\<lambda>(op, conn). Inr (0, op, conn))"
proof -
  from jsonout_value[OF assms, where flags = flags and curtime = curtime and numsecs = numsecs and hook = hook and conn = conn]
  show ?thesis by blast
qed

theorem jsonout_valid_json_witness:
  "\<exists>op'. out_ok op' \<and> json_valid (out_content op')
    \<and> jsonout zero_jenv None 0 (''ALL'' @ [NUL]) 7 1 (one_task zero_tstat) zero_sstat empty_output ()
      = and_then (output_samp_done None op' ()) (\<lambda>(op, conn). Inr (0, op, conn))"
proof -
  have "jsondef labeldefs (''ALL'' @ [NUL]) empty_output
      = Inr (0, map (\<lambda>l. l\<lparr>lab_valid := True\<rparr>) labeldefs, empty_output)"
    by (simp add: jsondef_def at_def jsondef_loop.simps mark_label_None[THEN iffD2] labeldefs_def)
  from jsonout_valid_json[OF _ _ this zero_ok(4,5,1) zero_dev_ok, of None 0 7 1 "()"] show ?thesis by simp
qed

text \<open>
  C23. A list of known labels is accepted, and makes exactly these labels valid; without a label
  nothing is.
\<close>

theorem jsondef_selects:
  assumes "set ls \<subseteq> label_names"
  shows "jsondef labeldefs (label_list ls @ NUL # rest) op
    = Inr (0, map (\<lambda>l. l\<lparr>lab_valid := (lab_label l \<in> set ls)\<rparr>) labeldefs, op)"
proof -
  have "lab_valid l = False" if "l \<in> set labeldefs" for l using that by (auto simp: labeldefs_def)
  then have "select (set ls) labeldefs = map (\<lambda>l. l\<lparr>lab_valid := (lab_label l \<in> set ls)\<rparr>) labeldefs"
    by (simp add: select_def)
  with jsondef_known[OF assms] show ?thesis by simp
qed

theorem jsondef_selects_witness:
  "jsondef labeldefs (''CPU,PRG'' @ [NUL]) empty_output
    = Inr (0, map (\<lambda>l. l\<lparr>lab_valid := (lab_label l \<in> {''CPU'', ''PRG''})\<rparr>) labeldefs, empty_output)"
  using jsondef_selects[of "[''CPU'', ''PRG'']" "[]" empty_output] by (simp add: label_names_def labeldefs_def)

text \<open>
  C18. With \<open>hidecmdline\<close> set, the answer does not depend on the command lines of the tasks: two
  samples that differ only there give the same bytes on the same connection.
\<close>

theorem jsonout_hides_cmdline:
  assumes "hidecmdline env \<noteq> 0" "ntaskall dev = length (taskall dev)"
    and "list_all2 (\<lambda>p q. \<exists>c. q = with_cmdline c p \<and> 4 \<le> length c \<and> 4 \<le> length (tg_cmdline (ts_gen p)))
           (taskall dev) qs"
  shows "jsonout env hook flags pd curtime numsecs (dev\<lparr>taskall := qs\<rparr>) ss op conn
    = jsonout env hook flags pd curtime numsecs dev ss op conn"
proof -
  from sanitize_hidden[OF assms(1,3)] obtain ps' qs' where
    s: "sanitize_tasks env (ntaskall dev) (taskall dev) = Inr ps'" "sanitize_tasks env (ntaskall dev) qs = Inr qs'"
      "list_all2 same_shown ps' qs'" using assms(2) by auto
  have shape: "\<forall>l \<in> set tbl. \<exists>l' \<in> set labeldefs. lab_prifunc l = lab_prifunc l'"
    if "jsondef labeldefs pd op = Inr (0, tbl, op1)" for tbl op1
  proof
    fix l assume "l \<in> set tbl"
    then have "(lab_label l, lab_prifunc l) \<in> set (map (\<lambda>x. (lab_label x, lab_prifunc x)) tbl)" by simp
    then show "\<exists>l' \<in> set labeldefs. lab_prifunc l = lab_prifunc l'"
      using jsondef_shape[OF that] by auto
  qed
  show ?thesis
  proof (cases "jsondef labeldefs pd op")
    case (Inr r)
    obtain ret tbl op1 where r: "r = (ret, tbl, op1)" by (cases r)
    then show ?thesis
      using Inr s print_labels_same[OF s(3) shape] by (cases "ret = 0") (simp_all add: jsonout_def)
  qed (simp add: jsonout_def)
qed

theorem jsonout_hides_cmdline_witness:
  "jsonout (zero_jenv\<lparr>hidecmdline := 1\<rparr>) None 0 (''PRG'' @ [NUL]) 7 1
      (one_task (with_cmdline (''login --secret'' @ [NUL]) zero_tstat)) zero_sstat empty_output ()
    = jsonout (zero_jenv\<lparr>hidecmdline := 1\<rparr>) None 0 (''PRG'' @ [NUL]) 7 1
      (one_task zero_tstat) zero_sstat empty_output ()"
proof -
  let ?p = "with_cmdline (''login --secret'' @ [NUL]) zero_tstat"
  have "list_all2 (\<lambda>p q. \<exists>c. q = with_cmdline c p \<and> 4 \<le> length c \<and> 4 \<le> length (tg_cmdline (ts_gen p)))
      (taskall (one_task zero_tstat)) [?p]"
    by (auto simp: one_task_def zero_tstat_def intro!: exI[of _ "''login --secret'' @ [NUL]"])
  from jsonout_hides_cmdline[OF _ _ this, where env = "zero_jenv\<lparr>hidecmdline := 1\<rparr>"]
  show ?thesis by (simp add: one_task_def)
qed

text \<open>
  C40. When the first task of the list is one that is skipped and a later one is not, the array
  of \<open>json_print_PRM\<close> starts with a comma, and the answer is not JSON: the comma is decided by
  the index in the list and not by what has been written. The same loop is in the printers
  PRG, PRC, PRD, PRN and PRE.
\<close>

theorem json_print_PRM_leading_comma:
  assumes "header_ok hp" "nact \<le> length ps" "\<forall>p \<in> set ps. tstat_ok p"
    and "ps = p # qs" "skipped p" "\<exists>q \<in> set (take nact ps). \<not> skipped q"
    and "out_ok op" "length (out_content op) + (nact * 425 + 11) \<le> 2 ^ 30"
  shows "\<exists>op' t. json_print_PRM env flags hp ss ps nact op = Inr op' \<and> out_ok op'
    \<and> out_content op' = out_content op @ t \<and> jrun ([FObj], JAfter) t = None"
  using bad_array[OF assms(1,2) PRM_rows assms(4-6)] assms(3,7,8)
  unfolding ob.emits_def json_print_PRM_def[abs_def] by fastforce

theorem json_print_PRM_leading_comma_witness:
  "\<exists>op' t. json_print_PRM zero_jenv 0 ([CHR 0x22] @ ''PRM'' @ [CHR 0x22, NUL]) zero_sstat
      [zero_tstat\<lparr>ts_gen := (ts_gen zero_tstat)\<lparr>tg_isproc := 0\<rparr>\<rparr>, zero_tstat] 2 empty_output = Inr op'
    \<and> out_content op' = t \<and> jrun ([FObj], JAfter) t = None"
proof -
  have "cstr ([CHR 0x22] @ ''PRM'' @ [CHR 0x22, NUL]) = [CHR 0x22] @ ''PRM'' @ [CHR 0x22]"
    by (simp add: cstr_def)
  then have h: "header_ok ([CHR 0x22] @ ''PRM'' @ [CHR 0x22, NUL])"
    by (simp add: header_ok_def clean_char_def)
  from json_print_PRM_leading_comma[OF h, of 2 "[zero_tstat\<lparr>ts_gen := (ts_gen zero_tstat)\<lparr>tg_isproc := 0\<rparr>\<rparr>, zero_tstat]"
      "zero_tstat\<lparr>ts_gen := (ts_gen zero_tstat)\<lparr>tg_isproc := 0\<rparr>\<rparr>" "[zero_tstat]" empty_output zero_jenv 0 zero_sstat]
  show ?thesis
    by (auto simp: skipped_def zero_tstat_def tstat_ok_def str_ok_def cstr_def clean_char_def)
qed



text \<open>
  The status and the exit code that PRG reports: a process that ended by itself shows \<open>E\<close> and
  its 8-bit exit code, one that a signal ended shows \<open>S\<close>, or \<open>C\<close> with a core dump, and 256 plus
  the signal; \<open>N\<close> marks a new process. \<open>excode\<close> is put together from these parts.
\<close>

theorem exit_status_decodes:
  "exit_status w =
     ([if bit w 31 then CHR ''N'' else CHR ''-'',
       if take_bit 8 w = 0 then CHR ''E'' else if bit w 7 then CHR ''C'' else CHR ''S'', NUL],
      if take_bit 8 w = 0 then take_bit 8 (drop_bit 8 w) else take_bit 7 w + 256)"
proof -
  have m: "(0xFF :: 32 word) = mask 8" "(0x7F :: 32 word) = mask 7" "(0x7FFFFFFF :: 32 word) = mask 31"
    "(0x80 :: 32 word) = push_bit 7 1"
    by (simp_all add: mask_eq_exp_minus_1 push_bit_eq_mult)
  have new: "w AND NOT (mask 31) \<noteq> 0 \<longleftrightarrow> bit w 31"
  proof -
    have "w AND NOT (mask 31) = (if bit w 31 then push_bit 31 1 else 0)"
      by (rule bit_word_eqI) (auto simp: bit_simps less_Suc_eq eval_nat_numeral)
    moreover have "(push_bit 31 1 :: 32 word) \<noteq> 0" by (simp add: push_bit_eq_mult)
    ultimately show ?thesis by simp
  qed
  have core: "w AND push_bit 7 1 \<noteq> 0 \<longleftrightarrow> bit w 7" by (simp add: bit_iff_and_push_bit_not_eq_0)
  have code: "signed_drop_bit 8 w AND mask 8 = take_bit 8 (drop_bit 8 w)"
    by (rule bit_word_eqI) (auto simp: bit_simps)
  show ?thesis
    unfolding exit_status_def Let_def m using new core code by (simp add: take_bit_eq_mask)
qed

end
