(* ===== verification/Rawlog.thy ===== *)
theory Rawlog
  imports JsonOut
begin

text \<open>
  The raw log of atop, as \<open>rawlog.c\<close> reads it: a header, then records that follow each other, each with
  a compressed sample of the system and a compressed list of tasks.

  The layout of the header and the record, their sizes, the magic number, and zlib's \<open>uncompress\<close>
  are not in the repository. They are the record \<open>abi\<close>, an argument of every operation. A length
  field is the \<open>size_t\<close> that the code's arithmetic converts it to, a 64-bit word.

  A file is its bytes and what the calls of the operating system answer; it does not change
  while one operation runs. \<open>pread\<close> gives the bytes from an offset, fewer at the end of the file, or
  fails. The code compares the \<open>ssize_t\<close> result with a \<open>sizeof\<close>, which is unsigned, so that a failure
  (\<open>-1\<close>) counts as a complete read: the record keeps the value it had, or has none yet.

  The loop over the records may run for ever; operations that contain it return an option, and
  \<open>None\<close> means that they do not return.
\<close>

section \<open>Data\<close>

record rawheader =
  rh_magic :: "32 word"
  rh_aversion :: "16 word"
  rh_rawheadlen :: nat
  rh_rawreclen :: nat
  rh_supportflags :: "32 word"
  rh_sstatlen :: nat
  rh_tstatlen :: nat

record rawrecord =
  rr_curtime :: time_t
  rr_flags :: "32 word"
  rr_scomplen :: "64 word"
  rr_pcomplen :: "64 word"
  rr_interval :: "32 word"
  rr_ndeviat :: "64 word"
  rr_nactproc :: "64 word"
  rr_totproc :: "64 word"
  rr_totrun :: "32 word"
  rr_totslpi :: "32 word"
  rr_totslpu :: "32 word"
  rr_totzomb :: "32 word"

record abi =
  sz_rawheader :: nat
  sz_rawrecord :: nat
  sz_sstat :: nat
  sz_tstat :: nat
  MYMAGIC :: "32 word"
  numvers :: "16 word"
  dec_header :: "bytes \<Rightarrow> rawheader"
  dec_record :: "bytes \<Rightarrow> rawrecord"
  dec_sstat :: "bytes \<Rightarrow> sstat"
  dec_tstat :: "bytes \<Rightarrow> tstat"
  uncompress :: "nat \<Rightarrow> bytes \<Rightarrow> bytes option"
  malloc_ok :: "nat \<Rightarrow> bool"
  stale_errno :: nat

text \<open>
  \<open>uncompress cap src\<close> is the text of \<open>src\<close> when zlib answers \<open>Z_OK\<close> for an output buffer of \<open>cap\<close>
  bytes. \<open>stale_errno\<close> is the value \<open>errno\<close> happens to have when no call has failed.
\<close>

record rfile =
  f_data :: bytes
  f_bad :: "nat \<Rightarrow> bool"
  f_mtim :: "int \<times> int"
  f_stat_err :: "nat option"
  f_seek_err :: "nat option"

text \<open>What \<open>open\<close> says of a path: an \<open>errno\<close>, or the file.\<close>

type_synonym fs = "string \<Rightarrow> nat + rfile"

datatype read_result = Rd_fail | Rd_bytes bytes

definition pread :: "rfile \<Rightarrow> nat \<Rightarrow> off_t \<Rightarrow> read_result" where
  "pread f n off =
     (if sint off < 0 \<or> f_bad f (nat (sint off)) then Rd_fail
      else Rd_bytes (take n (drop (nat (sint off)) (f_data f))))"

text \<open>An operation that may not return.\<close>

type_synonym 'a run = "'a res option"

definition and_run :: "'a run \<Rightarrow> ('a \<Rightarrow> 'b run) \<Rightarrow> 'b run" where
  "and_run m k = (case m of None \<Rightarrow> None | Some (Inl e) \<Rightarrow> Some (Inl e) | Some (Inr x) \<Rightarrow> k x)"

lemma and_run_simps [simp]:
  "and_run None k = None" "and_run (Some (Inl e)) k = Some (Inl e)" "and_run (Some (Inr x)) k = k x"
  by (simp_all add: and_run_def)

definition ENOENT :: nat where "ENOENT = 2"
definition EIO :: nat where "EIO = 5"
definition ENOMEM :: nat where "ENOMEM = 12"
definition ENODATA :: nat where "ENODATA = 61"
definition PATH_MAX :: nat where "PATH_MAX = 4096"

section \<open>Indexing a file\<close>

definition rawlog_verify_rawheader :: "abi \<Rightarrow> rawheader \<Rightarrow> int" where
  "rawlog_verify_rawheader abi rh =
     (if rh_magic rh \<noteq> MYMAGIC abi then - int EINVAL
      else if rh_rawheadlen rh \<noteq> sz_rawheader abi \<or> rh_rawreclen rh \<noteq> sz_rawrecord abi
           \<or> rh_sstatlen rh \<noteq> sz_sstat abi \<or> rh_tstatlen rh \<noteq> sz_tstat abi then - int EINVAL
      else if rh_aversion rh AND 0x8000 \<noteq> 0 \<and> rh_aversion rh AND 0x7fff \<noteq> numvers abi then - int EINVAL
      else 0)"

text \<open>\<open>off + sizeof (rr) + rr.scomplen + rr.pcomplen\<close>\<close>

definition next_off :: "abi \<Rightarrow> off_t \<Rightarrow> rawrecord \<Rightarrow> off_t" where
  "next_off abi off rr = off + of_nat (sz_rawrecord abi) + rr_scomplen rr + rr_pcomplen rr"

text \<open>
  The \<open>while (1)\<close> of both functions. The third argument is the content of \<open>rr\<close>, if it has one.
\<close>

partial_function (option) scan ::
    "abi \<Rightarrow> rfile \<Rightarrow> rawrecord option \<Rightarrow> off_t \<Rightarrow> cache_t \<Rightarrow> cache_t run" where
  "scan abi f rr off cache =
     (case pread f (sz_rawrecord abi) off of
        Rd_bytes bs \<Rightarrow>
          if length bs < sz_rawrecord abi then Some (Inr cache)
          else scan abi f (Some (dec_record abi bs)) (next_off abi off (dec_record abi bs))
                 (cache_set (rr_curtime (dec_record abi bs)) off cache)
      | Rd_fail \<Rightarrow>
          (case rr of
             None \<Rightarrow> Some (Inl Indeterminate)
           | Some r \<Rightarrow> scan abi f (Some r) (next_off abi off r) (cache_set (rr_curtime r) off cache)))"

text \<open>\<open>fstat\<close>, and the two fields that are set from it.\<close>

definition note_stat :: "rfile \<Rightarrow> cache_t \<Rightarrow> int \<times> cache_t" where
  "note_stat f cache =
     (case f_stat_err f of
        Some e \<Rightarrow> (- int e, cache)
      | None \<Rightarrow> (0, cache\<lparr>st_size := int (length (f_data f)), st_mtim := f_mtim f\<rparr>))"

definition rawlog_rebuild_one :: "abi \<Rightarrow> fs \<Rightarrow> cache_t \<Rightarrow> (int \<times> cache_t) run" where
  "rawlog_rebuild_one abi fs cache =
     (case fs (cache_name cache) of
        Inl e \<Rightarrow> Some (Inr (- int e, cache))
      | Inr f \<Rightarrow>
          if elems cache = [] then Some (Inl OutOfBounds)
          else let off = elem_off (last (elems cache))
               in case pread f (sz_rawrecord abi) off of
                    Rd_fail \<Rightarrow> Some (Inl Indeterminate)
                  | Rd_bytes bs \<Rightarrow>
                      if length bs < sz_rawrecord abi then Some (Inr (0, cache))
                      else let rr = dec_record abi bs
                           in and_run (scan abi f (Some rr) (next_off abi off rr) cache) (\<lambda>cache.
                                Some (Inr (note_stat f cache))))"

text \<open>
  Reading a file for the first time. An empty cache is released again, but not when \<open>lseek\<close> or
  \<open>fstat\<close> fails.
\<close>

definition rawlog_parse_new :: "abi \<Rightarrow> fs \<Rightarrow> string \<Rightarrow> cache_table \<Rightarrow> (int \<times> cache_table) run" where
  "rawlog_parse_new abi fs path caches =
     (case fs path of
        Inl e \<Rightarrow> Some (Inr (- int e, caches))
      | Inr f \<Rightarrow>
          (case pread f (sz_rawheader abi) 0 of
             Rd_fail \<Rightarrow> Some (Inl Indeterminate)
           | Rd_bytes hbs \<Rightarrow>
               if length hbs < sz_rawheader abi then Some (Inr (- int EINVAL, caches))
               else let rh = dec_header abi hbs; ret = rawlog_verify_rawheader abi rh
                    in if ret \<noteq> 0 then Some (Inr (ret, caches))
                       else and_run (Some (cache_alloc path caches)) (\<lambda>(i, caches).
                         let cache = (caches ! i)\<lparr>cache_flags := rh_supportflags rh\<rparr>
                         in case f_seek_err f of
                              Some e \<Rightarrow> Some (Inr (- int e, caches[i := cache]))
                            | None \<Rightarrow>
                                and_run (scan abi f None (of_nat (sz_rawheader abi)) cache) (\<lambda>cache.
                                  let (ret, cache) = note_stat f cache; caches = caches[i := cache]
                                  in if ret \<noteq> 0 then Some (Inr (ret, caches))
                                     else if nr_elems cache = 0
                                          then Some (Inr (ret, cache_free path caches))
                                          else Some (Inr (0, caches))))))"

definition rawlog_parse_one :: "abi \<Rightarrow> fs \<Rightarrow> string \<Rightarrow> cache_table \<Rightarrow> (int \<times> cache_table) run" where
  "rawlog_parse_one abi fs path caches =
     (case cache_find path caches of
        Some i \<Rightarrow>
          (case fs path of
             Inl e \<Rightarrow> Some (Inr (- int e, caches))
           | Inr f \<Rightarrow>
               (case f_stat_err f of
                  Some e \<Rightarrow> Some (Inr (- int e, caches))
                | None \<Rightarrow>
                    if st_size (caches ! i) = int (length (f_data f)) then Some (Inr (0, caches))
                    else and_run (rawlog_rebuild_one abi fs (caches ! i)) (\<lambda>(ret, cache).
                           Some (Inr (ret, caches[i := cache])))))
      | None \<Rightarrow> rawlog_parse_new abi fs path caches)"

text \<open>
  A directory is the list of its entries, with the flag whether \<open>d_type\<close> is \<open>DT_REG\<close>. The path
  is written to an array of \<open>PATH_MAX\<close> bytes with \<open>sprintf\<close>.
\<close>

fun parse_entries :: "abi \<Rightarrow> fs \<Rightarrow> string \<Rightarrow> (string \<times> bool) list \<Rightarrow> cache_table \<Rightarrow> cache_table run" where
  "parse_entries abi fs path [] caches = Some (Inr caches)"
| "parse_entries abi fs path ((d_name, regular) # ds) caches =
     (if \<not> regular then parse_entries abi fs path ds caches
      else let name = path @ ''/'' @ d_name
           in if length name \<ge> PATH_MAX then Some (Inl OutOfBounds)
              else and_run (rawlog_parse_one abi fs name caches) (\<lambda>(_, caches).
                     parse_entries abi fs path ds caches))"

definition rawlog_parse_all ::
    "abi \<Rightarrow> fs \<Rightarrow> string \<Rightarrow> nat + (string \<times> bool) list \<Rightarrow> cache_table \<Rightarrow> (int \<times> cache_table) run" where
  "rawlog_parse_all abi fs path dir caches =
     (case dir of
        Inl e \<Rightarrow> Some (Inr (- int e, caches))
      | Inr ds \<Rightarrow> and_run (parse_entries abi fs path ds caches) (\<lambda>caches. Some (Inr (0, cache_sort caches))))"

section \<open>Reading one record\<close>

text \<open>
  \<open>read (fd, buf, n)\<close> at the position of the descriptor, which moves by what was read.
\<close>

definition read_at :: "rfile \<Rightarrow> nat \<Rightarrow> off_t \<Rightarrow> read_result \<times> off_t" where
  "read_at f n pos =
     (case pread f n pos of
        Rd_fail \<Rightarrow> (Rd_fail, pos)
      | Rd_bytes bs \<Rightarrow> (Rd_bytes bs, pos + of_nat (length bs)))"

text \<open>
  The result: 0 and the bytes that were written to the output buffer of \<open>outlen\<close> bytes, or an
  error. \<open>*outlen\<close> is not looked at again by the callers.
\<close>

definition rawlog_uncompress_record ::
    "abi \<Rightarrow> rfile \<Rightarrow> off_t \<Rightarrow> nat \<Rightarrow> nat \<Rightarrow> int \<times> bytes \<times> off_t" where
  "rawlog_uncompress_record abi f pos outlen inlen =
     (if \<not> malloc_ok abi inlen then (- int ENOMEM, [], pos)
      else case read_at f inlen pos of
             (Rd_fail, pos) \<Rightarrow> (- int EIO, [], pos)
           | (Rd_bytes inbuf, pos) \<Rightarrow>
               if length inbuf \<noteq> inlen then (- int EIO, [], pos)
               else case uncompress abi outlen inbuf of
                      None \<Rightarrow> (- int ENODATA, [], pos)
                    | Some out \<Rightarrow> (0, out, pos))"

text \<open>
  The object at \<open>i\<close> in memory of \<open>cap\<close> bytes from \<open>malloc\<close>, of which the first ones hold \<open>out\<close>.
\<close>

definition read_obj :: "(bytes \<Rightarrow> 'a) \<Rightarrow> nat \<Rightarrow> nat \<Rightarrow> bytes \<Rightarrow> nat \<Rightarrow> 'a res" where
  "read_obj dec sz cap out i =
     (if (i + 1) * sz > cap then Inl OutOfBounds
      else if (i + 1) * sz > length out then Inl Indeterminate
      else Inr (dec (take sz (drop (i * sz) out))))"

text \<open>\<open>rawlog_get_sstat\<close> leaves the sample in \<open>sstat\<close>; it is read as a whole here.\<close>

definition rawlog_get_sstat :: "abi \<Rightarrow> rfile \<Rightarrow> off_t \<Rightarrow> nat \<Rightarrow> int \<times> bytes \<times> off_t" where
  "rawlog_get_sstat abi f pos len = rawlog_uncompress_record abi f pos (sz_sstat abi) len"

text \<open>
  The third part of \<open>rawlog_get_devtstat\<close>: the loop over the tasks, with the three counters. The
  arrays of pointers have room for \<open>capp\<close> and \<open>capa\<close> entries; a pointer is the index of the task.
\<close>

record devstate =
  ds_tasks :: "tstat list"
  ds_procall :: "nat list"
  ds_procactive :: "nat list"
  ds_ntaskactive :: nat

definition push_ptr :: "nat \<Rightarrow> nat \<Rightarrow> nat list \<Rightarrow> nat list res" where
  "push_ptr cap p ps = (if length ps < cap then Inr (ps @ [p]) else Inl OutOfBounds)"

definition devtstat_step :: "nat \<Rightarrow> nat \<Rightarrow> nat \<Rightarrow> tstat \<Rightarrow> devstate \<Rightarrow> devstate res" where
  "devtstat_step capp capa k t s =
     (let active = (tg_wasinactive (ts_gen t) = 0)
      in and_then (if tg_isproc (ts_gen t) \<noteq> 0
                   then and_then (push_ptr capp k (ds_procall s)) (\<lambda>pa.
                        and_then (if active then push_ptr capa k (ds_procactive s)
                                  else Inr (ds_procactive s)) (\<lambda>pact.
                          Inr (s\<lparr>ds_procall := pa, ds_procactive := pact\<rparr>)))
                   else Inr s) (\<lambda>s.
           Inr (s\<lparr>ds_tasks := ds_tasks s @ [t],
                  ds_ntaskactive := (if active then Suc (ds_ntaskactive s) else ds_ntaskactive s)\<rparr>)))"

fun devtstat_loop :: "(nat \<Rightarrow> tstat res) \<Rightarrow> nat \<Rightarrow> nat \<Rightarrow> nat \<Rightarrow> nat \<Rightarrow> devstate \<Rightarrow> devstate res" where
  "devtstat_loop task capp capa k 0 s = Inr s"
| "devtstat_loop task capp capa k (Suc n) s =
     and_then (task k) (\<lambda>t. and_then (devtstat_step capp capa k t s) (\<lambda>s.
       devtstat_loop task capp capa (Suc k) n s))"

definition ptr_size :: nat where
  "ptr_size = 8"

definition rawlog_get_devtstat :: "abi \<Rightarrow> rfile \<Rightarrow> off_t \<Rightarrow> rawrecord \<Rightarrow> (int \<times> devtstat option) res" where
  "rawlog_get_devtstat abi f pos rr =
     (let outlen = unat (of_nat (sz_tstat abi) * rr_ndeviat rr);
          szp = unat (of_nat ptr_size * rr_totproc rr);
          sza = unat (of_nat ptr_size * rr_nactproc rr)
      in if \<not> malloc_ok abi outlen \<or> \<not> malloc_ok abi szp \<or> \<not> malloc_ok abi sza
         then Inr (- int ENOMEM, None)
         else let (ret, out, _) = rawlog_uncompress_record abi f pos outlen (unat (rr_pcomplen rr))
              in if ret \<noteq> 0 then Inr (ret, None)
                 else and_then (devtstat_loop (read_obj (dec_tstat abi) (sz_tstat abi) outlen out)
                         (szp div ptr_size) (sza div ptr_size) 0 (unat (rr_ndeviat rr))
                         \<lparr>ds_tasks = [], ds_procall = [], ds_procactive = [], ds_ntaskactive = 0\<rparr>) (\<lambda>s.
                      Inr (0, Some \<lparr>taskall = ds_tasks s, procall = ds_procall s,
                        procactive = ds_procactive s, ntaskall = unat (rr_ndeviat rr),
                        nprocall = length (ds_procall s), nprocactive = length (ds_procactive s),
                        ntaskactive = ds_ntaskactive s, totrun = rr_totrun rr,
                        totslpi = rr_totslpi rr, totslpu = rr_totslpu rr, totzombie = rr_totzomb rr\<rparr>)))"

definition rawlog_record_flags :: "atop_flags \<Rightarrow> 32 word \<Rightarrow> 32 word \<Rightarrow> 32 word" where
  "rawlog_record_flags a hflags rflags =
     (let add = (\<lambda>bit flag ret :: 32 word. if rflags AND bit \<noteq> 0 then ret OR flag else ret);
          ret = (if hflags AND c_RAWLOGNG a \<noteq> 0
                 then add (c_RRIOSTAT a) (c_IOSTAT a) (add (c_RRACCTACTIVE a) (c_ACCTACTIVE a) 0)
                 else 0)
      in add (c_RRGPUSTAT a) (c_GPUSTAT a)
         (add (c_RRDOCKSTAT a) (c_DOCKSTAT a)
          (add (c_RRCGRSTAT a) (c_CGROUPV2 a)
           (add (c_RRNETATOPD a) (c_NETATOPD a)
            (add (c_RRNETATOP a) (c_NETATOP a) ret)))))"

text \<open>
  Which record to read: the one the cache has for the time, or the most recent one when the time
  is not before it.
\<close>

definition pick_record :: "time_t \<Rightarrow> cache_table \<Rightarrow> (cache_t \<times> off_t) option res" where
  "pick_record ts caches =
     and_then (cache_get ts caches) (\<lambda>hit. case hit of
        Some (i, off) \<Rightarrow> Inr (Some (caches ! i, off))
      | None \<Rightarrow>
          (case cache_get_recent caches of
             None \<Rightarrow> Inr None
           | Some i \<Rightarrow>
               if elems (caches ! i) = [] then Inl OutOfBounds
               else let e = last (elems (caches ! i))
                    in if ts < elem_time e then Inr None
                       else Inr (Some (caches ! i, elem_off e))))"

text \<open>
  \<open>rawlog_get_record\<close>. The result of \<open>lseek\<close> is kept in an \<open>int\<close>; \<open>lseek\<close> itself fails only for a
  negative offset (or when the file says so).
\<close>

definition seek_result :: "rfile \<Rightarrow> off_t \<Rightarrow> int" where
  "seek_result f off =
     (if f_seek_err f \<noteq> None \<or> sint off < 0 then - 1 else sint (ucast off :: 32 word))"

definition seek_errno :: "abi \<Rightarrow> rfile \<Rightarrow> off_t \<Rightarrow> nat" where
  "seek_errno abi f off =
     (case f_seek_err f of Some e \<Rightarrow> e
      | None \<Rightarrow> if sint off < 0 then EINVAL else stale_errno abi)"

definition rawlog_get_record ::
    "abi \<Rightarrow> jenv \<Rightarrow> (output_t \<Rightarrow> 'conn \<Rightarrow> 'conn res) option \<Rightarrow> fs \<Rightarrow> cache_table \<Rightarrow> time_t \<Rightarrow> bytes
       \<Rightarrow> output_t \<Rightarrow> 'conn \<Rightarrow> (int \<times> output_t \<times> 'conn) res" where
  "rawlog_get_record abi env hook fs caches ts labels op conn =
     (if \<not> malloc_ok abi (sz_sstat abi) then Inr (- int ENOMEM, op, conn)
      else and_then (pick_record ts caches) (\<lambda>picked. case picked of
        None \<Rightarrow> Inr (- int EIO, op, conn)
      | Some (cache, off) \<Rightarrow>
        (case fs (cache_name cache) of
           Inl e \<Rightarrow> Inr (- int e, op, conn)
         | Inr f \<Rightarrow>
           if seek_result f off < 0 then Inr (- int (seek_errno abi f off), op, conn)
           else case read_at f (sz_rawrecord abi) off of
                  (Rd_fail, pos) \<Rightarrow> Inr (- int EIO, op, conn)
                | (Rd_bytes bs, pos) \<Rightarrow>
                  if length bs \<noteq> sz_rawrecord abi then Inr (- int EIO, op, conn)
                  else let rr = dec_record abi bs;
                           (ret, sbytes, pos) = rawlog_get_sstat abi f pos (unat (rr_scomplen rr))
                       in if ret \<noteq> 0 then Inr (ret, op, conn)
                          else and_then (rawlog_get_devtstat abi f pos rr) (\<lambda>(ret, dev). case dev of
                              None \<Rightarrow> Inr (ret, op, conn)
                            | Some dev \<Rightarrow>
                              and_then (read_obj (dec_sstat abi) (sz_sstat abi) (sz_sstat abi) sbytes 0) (\<lambda>ss.
                              and_then (jsonout env hook
                                  (rawlog_record_flags (aflags env) (cache_flags cache) (rr_flags rr))
                                  labels (of_int (rr_curtime rr)) (rr_interval rr) dev ss op conn)
                                (\<lambda>(_, op, conn). Inr (0, op, conn)))))))"

end
