(* ===== verification/RawlogProofs.thy ===== *)
theory RawlogProofs
  imports Rawlog
begin

text \<open>
  Proofs about \<open>rawlog.c\<close>: the loop over the records visits exactly the records of a file, an index that is
  brought up to date equals one that is built anew, scanning a directory keeps the table good, and a
  record that is in the file is the one that is printed. The last part shows what happens when the
  operating system fails or the record's counts are wrong.
\<close>

section \<open>What a file holds\<close>

text \<open>
  The specification: the records of a file from an offset on, with time and offset. A record
  counts when its fixed part is within the file.
\<close>

definition record_at :: "abi \<Rightarrow> bytes \<Rightarrow> nat \<Rightarrow> rawrecord" where
  "record_at abi data off = dec_record abi (take (sz_rawrecord abi) (drop off data))"

definition record_end :: "abi \<Rightarrow> bytes \<Rightarrow> nat \<Rightarrow> nat" where
  "record_end abi data off =
     off + sz_rawrecord abi + unat (rr_scomplen (record_at abi data off))
       + unat (rr_pcomplen (record_at abi data off))"

function log_records :: "abi \<Rightarrow> bytes \<Rightarrow> nat \<Rightarrow> (time_t \<times> nat) list" where
  "log_records abi data off =
     (if sz_rawrecord abi = 0 \<or> length data < off + sz_rawrecord abi then []
      else (rr_curtime (record_at abi data off), off) # log_records abi data (record_end abi data off))"
  by pat_completeness auto
termination
  by (relation "measure (\<lambda>(abi, data, off). length data - off)") (auto simp: record_end_def)

declare log_records.simps [simp del]

text \<open>What the code relies on of the submodule: a record has a size, and its lengths are 32-bit fields.\<close>

definition abi_ok :: "abi \<Rightarrow> bool" where
  "abi_ok abi \<longleftrightarrow> 0 < sz_rawrecord abi
     \<and> (\<forall>bs. unat (rr_scomplen (dec_record abi bs)) < 2 ^ 32 \<and> unat (rr_pcomplen (dec_record abi bs)) < 2 ^ 32)"

text \<open>A file that can be read, of less than \<open>2^62\<close> bytes.\<close>

definition file_ok :: "rfile \<Rightarrow> bool" where
  "file_ok f \<longleftrightarrow> (\<forall>o'. \<not> f_bad f o') \<and> f_stat_err f = None \<and> f_seek_err f = None
     \<and> length (f_data f) < 2 ^ 62"

definition index_records :: "cache_t \<Rightarrow> (time_t \<times> nat) list \<Rightarrow> cache_t" where
  "index_records cache rs = foldl (\<lambda>c (t, off). cache_set t (of_nat off) c) cache rs"

lemma index_records_simps [simp]:
  "index_records c [] = c"
  "index_records c ((t, off) # rs) = index_records (cache_set t (of_nat off) c) rs"
  by (simp_all add: index_records_def)

lemma index_records_append: "index_records c (rs @ rs') = index_records (index_records c rs) rs'"
  by (simp add: index_records_def)

section \<open>The loop visits the records\<close>

lemma sint_of_nat64: "n < 2 ^ 63 \<Longrightarrow> sint (of_nat n :: 64 word) = int n"
  using sint_word_of_int_in[where 'a = 64, of "int n"] by simp

lemma pread_in:
  "file_ok f \<Longrightarrow> off < 2 ^ 63 \<Longrightarrow> pread f n (of_nat off) = Rd_bytes (take n (drop off (f_data f)))"
  using sint_of_nat64[of off] by (simp add: pread_def file_ok_def)

lemma next_off_of_nat:
  "next_off abi (of_nat off) (record_at abi data off) = of_nat (record_end abi data off)"
  by (simp add: next_off_def record_end_def)

lemma record_end_bound:
  assumes "abi_ok abi" "off + sz_rawrecord abi \<le> length data" "length data < 2 ^ 62"
  shows "record_end abi data off < 2 ^ 62 + 2 ^ 33"
proof -
  have "unat (rr_scomplen (record_at abi data off)) < 2 ^ 32" "unat (rr_pcomplen (record_at abi data off)) < 2 ^ 32"
    using assms(1) by (auto simp: abi_ok_def record_at_def)
  with assms(2,3) show ?thesis by (simp add: record_end_def)
qed

lemma record_end_gt: "abi_ok abi \<Longrightarrow> off < record_end abi data off"
  by (simp add: abi_ok_def record_end_def)

lemma scan_spec:
  assumes "abi_ok abi" "file_ok f" "off < 2 ^ 62 + 2 ^ 33"
  shows "scan abi f rr (of_nat off) c = Some (Inr (index_records c (log_records abi (f_data f) off)))"
  using assms(3)
proof (induction "length (f_data f) - off" arbitrary: off rr c rule: less_induct)
  case less
  let ?d = "f_data f" and ?sz = "sz_rawrecord abi"
  have sz: "?sz \<noteq> 0" using assms(1) by (simp add: abi_ok_def)
  have rd: "pread f ?sz (of_nat off) = Rd_bytes (take ?sz (drop off ?d))"
    by (rule pread_in[OF assms(2)]) (use less.prems in simp)
  show ?case
  proof (cases "length ?d < off + ?sz")
    case True
    then have "length (take ?sz (drop off ?d)) < ?sz" using sz by auto
    with rd True show ?thesis by (subst scan.simps, subst log_records.simps) simp
  next
    case False
    then have full: "\<not> length (take ?sz (drop off ?d)) < ?sz" by simp
    let ?e = "record_end abi ?d off"
    have "scan abi f rr (of_nat off) c
        = scan abi f (Some (record_at abi ?d off)) (of_nat ?e)
            (cache_set (rr_curtime (record_at abi ?d off)) (of_nat off) c)"
      using rd full by (subst scan.simps) (simp add: record_at_def[symmetric] next_off_of_nat)
    also have "\<dots> = Some (Inr (index_records (cache_set (rr_curtime (record_at abi ?d off)) (of_nat off) c)
        (log_records abi ?d ?e)))"
    proof (rule less.hyps)
      show "length ?d - ?e < length ?d - off"
        using record_end_gt[OF assms(1), of off ?d] False sz by linarith
      show "?e < 2 ^ 62 + 2 ^ 33"
        by (rule record_end_bound[OF assms(1)]) (use False assms(2) in \<open>auto simp: file_ok_def\<close>)
    qed
    finally show ?thesis using False sz by (subst log_records.simps) simp
  qed
qed

text \<open>Growing a file keeps the records it has; the new ones start where the last one ends.\<close>

lemma record_at_append:
  "off + sz_rawrecord abi \<le> length data \<Longrightarrow> record_at abi (data @ ext) off = record_at abi data off"
  by (simp add: record_at_def)

lemma record_end_append:
  "off + sz_rawrecord abi \<le> length data \<Longrightarrow> record_end abi (data @ ext) off = record_end abi data off"
  by (simp add: record_end_def record_at_append)

lemma log_records_append:
  assumes "log_records abi data off \<noteq> []"
  shows "log_records abi (data @ ext) off
    = log_records abi data off
      @ log_records abi (data @ ext) (record_end abi data (snd (last (log_records abi data off))))"
  using assms
proof (induction abi data off rule: log_records.induct)
  case (1 abi data off)
  let ?e = "record_end abi data off"
  from 1(2) have c: "\<not> (sz_rawrecord abi = 0 \<or> length data < off + sz_rawrecord abi)"
    by (subst (asm) log_records.simps) (auto split: if_splits)
  then have le: "off + sz_rawrecord abi \<le> length data" by simp
  have old: "log_records abi data off = (rr_curtime (record_at abi data off), off) # log_records abi data ?e"
    using c by (subst log_records.simps) simp
  have new: "log_records abi (data @ ext) off
      = (rr_curtime (record_at abi data off), off) # log_records abi (data @ ext) ?e"
    using c le by (subst log_records.simps) (simp add: record_at_append record_end_append)
  show ?case
  proof (cases "log_records abi data ?e = []")
    case True
    then show ?thesis by (simp add: old new)
  next
    case False
    with 1(1)[OF c False] show ?thesis by (simp add: old new)
  qed
qed

lemma log_records_within:
  "(t, o') \<in> set (log_records abi data off) \<Longrightarrow> o' + sz_rawrecord abi \<le> length data"
proof (induction abi data off rule: log_records.induct)
  case (1 abi data off)
  then show ?case by (subst (asm) (2) log_records.simps) (auto split: if_splits)
qed

section \<open>The index of a file\<close>

definition entry_of :: "time_t \<times> nat \<Rightarrow> cache_elem_t" where
  "entry_of r = \<lparr>elem_time = fst r, elem_off = of_nat (snd r)\<rparr>"

lemma index_records_frame [simp]:
  "cache_name (index_records c rs) = cache_name c"
  "cache_flags (index_records c rs) = cache_flags c"
  "nr_elems (index_records c rs) = nr_elems c + length rs"
  by (induction rs arbitrary: c) auto

lemma index_records_inv: "cache_inv c \<Longrightarrow> cache_inv (index_records c rs)"
proof (induction rs arbitrary: c)
  case (Cons r rs)
  then show ?case by (cases r) (simp add: cache_inv_set)
qed simp

lemma index_records_empty: "elems (index_records c rs) = [] \<longleftrightarrow> elems c = [] \<and> rs = []"
  using index_records_frame(3)[of c rs] by (metis add_is_0 length_0_conv)

lemma index_records_mset:
  "cache_inv c \<Longrightarrow> mset (elems (index_records c rs)) = mset (elems c) + mset (map entry_of rs)"
proof (induction rs arbitrary: c)
  case (Cons r rs)
  obtain t o' where r: "r = (t, o')" by (cases r)
  have "sorted (times c)" using Cons.prems by (simp add: cache_inv_def)
  from mset_elems_cache_set[OF this, of t "of_nat o'"] Cons.IH[of "cache_set t (of_nat o') c"] Cons.prems r
  show ?case by (auto simp: entry_of_def)
qed simp

text \<open>Records that come in order of time are appended as they come.\<close>

lemma index_records_sorted:
  assumes "cache_inv c" "sorted (times c @ map fst rs)"
  shows "elems (index_records c rs) = elems c @ map entry_of rs"
  using assms
proof (induction rs arbitrary: c)
  case (Cons r rs)
  obtain t o' where r: "r = (t, o')" by (cases r)
  let ?c = "cache_set t (of_nat o') c"
  have srt: "sorted (times c)" using Cons.prems(1) by (simp add: cache_inv_def)
  have "\<forall>e \<in> set (elems c). elem_time e \<le> t"
    using Cons.prems(2) by (auto simp: r times_def sorted_append)
  then have e: "elems ?c = elems c @ [entry_of r]"
    using elems_cache_set[OF srt, of t "of_nat o'"] by (simp add: r entry_of_def takeWhile_eq_all_conv[THEN iffD2] dropWhile_eq_Nil_conv[THEN iffD2])
  then have "times ?c = times c @ [t]" by (simp add: times_def r entry_of_def)
  then have "sorted (times ?c @ map fst rs)" using Cons.prems(2) by (simp add: r)
  with Cons.IH[of ?c] Cons.prems(1) e show ?case by (auto simp: r)
qed simp

text \<open>
  A cache of the table: well-formed, not empty, and with offsets below \<open>2^62\<close>.
\<close>

definition cache_ok :: "cache_t \<Rightarrow> bool" where
  "cache_ok c \<longleftrightarrow> cache_inv c \<and> elems c \<noteq> [] \<and> (\<forall>e \<in> set (elems c). unat (elem_off e) < 2 ^ 62)"

definition table_ok :: "cache_table \<Rightarrow> bool" where
  "table_ok caches \<longleftrightarrow> distinct (cache_names caches) \<and> (\<forall>c \<in> set caches. cache_ok c)"

lemma unat_of_nat64: "n < 2 ^ 62 \<Longrightarrow> unat (of_nat n :: 64 word) = n"
  by (simp add: unat_of_nat take_bit_nat_eq_self)

lemma index_records_ok:
  assumes "cache_inv c" "\<forall>e \<in> set (elems c). unat (elem_off e) < 2 ^ 62"
    and "file_ok f" "elems c \<noteq> [] \<or> log_records abi (f_data f) off \<noteq> []"
  shows "cache_ok (index_records c (log_records abi (f_data f) off))"
proof -
  let ?rs = "log_records abi (f_data f) off"
  have "unat (elem_off e) < 2 ^ 62" if "e \<in> set (elems (index_records c ?rs))" for e
  proof -
    have "set (elems (index_records c ?rs)) = set (elems c) \<union> entry_of ` set ?rs"
      using arg_cong[OF index_records_mset[OF assms(1), of ?rs], of set_mset] by auto
    with that consider "e \<in> set (elems c)" | r where "r \<in> set ?rs" "e = entry_of r" by blast
    then show ?thesis
    proof cases
      case 1 with assms(2) show ?thesis by blast
    next
      case 2
      have "snd r < 2 ^ 62"
        using log_records_within[of "fst r" "snd r" abi "f_data f" off] 2(1) assms(3) by (simp add: file_ok_def)
      with 2(2) show ?thesis by (simp add: entry_of_def unat_of_nat64)
    qed
  qed
  moreover have "elems (index_records c ?rs) \<noteq> []"
    using assms(4) by (simp add: index_records_empty)
  ultimately show ?thesis using index_records_inv[OF assms(1)] by (simp add: cache_ok_def)
qed

lemma index_records_keeps_size: "st_size (index_records c rs) = st_size c \<and> st_mtim (index_records c rs) = st_mtim c"
  by (induction rs arbitrary: c) auto

section \<open>The operations on readable files\<close>

definition with_stat :: "rfile \<Rightarrow> cache_t \<Rightarrow> cache_t" where
  "with_stat f c = c\<lparr>st_size := int (length (f_data f)), st_mtim := f_mtim f\<rparr>"

lemma with_stat_sel [simp]:
  "elems (with_stat f c) = elems c" "cache_name (with_stat f c) = cache_name c"
  "cache_inv (with_stat f c) = cache_inv c" "cache_ok (with_stat f c) = cache_ok c"
  by (simp_all add: with_stat_def cache_inv_def times_def cache_ok_def)

lemma note_stat_ok: "file_ok f \<Longrightarrow> note_stat f c = (0, with_stat f c)"
  by (simp add: note_stat_def file_ok_def with_stat_def)

definition header_accepted :: "abi \<Rightarrow> rfile \<Rightarrow> bool" where
  "header_accepted abi f \<longleftrightarrow> sz_rawheader abi \<le> length (f_data f)
     \<and> rawlog_verify_rawheader abi (dec_header abi (take (sz_rawheader abi) (f_data f))) = 0"

definition file_index :: "abi \<Rightarrow> string \<Rightarrow> rfile \<Rightarrow> cache_t" where
  "file_index abi path f =
     with_stat f (index_records
       ((fresh_cache path)\<lparr>cache_flags := rh_supportflags (dec_header abi (take (sz_rawheader abi) (f_data f)))\<rparr>)
       (log_records abi (f_data f) (sz_rawheader abi)))"

lemma parse_new_spec:
  assumes "abi_ok abi" "fs path = Inr f" "file_ok f" "header_accepted abi f" "path \<notin> set (cache_names caches)"
  shows "rawlog_parse_new abi fs path caches
    = Some (Inr (0, if log_records abi (f_data f) (sz_rawheader abi) = [] then caches
                    else caches @ [file_index abi path f]))"
proof -
  let ?h = "sz_rawheader abi" and ?d = "f_data f"
  let ?c = "(fresh_cache path)\<lparr>cache_flags := rh_supportflags (dec_header abi (take ?h ?d))\<rparr>"
  have h: "?h \<le> length ?d" "?h < 2 ^ 63" "?h < 2 ^ 62 + 2 ^ 33"
    using assms(3,4) by (auto simp: header_accepted_def file_ok_def)
  have rd: "pread f ?h 0 = Rd_bytes (take ?h ?d)" using pread_in[OF assms(3), of 0 ?h] by simp
  have len: "length (take ?h ?d) = ?h" using h by simp
  have al: "cache_alloc path caches = Inr (length caches, caches @ [fresh_cache path])"
    using assms(5) by (simp add: cache_alloc_Inr cache_find_None)
  have sc: "scan abi f None (of_nat ?h) ?c = Some (Inr (index_records ?c (log_records abi ?d ?h)))"
    by (rule scan_spec[OF assms(1,3) h(3)])
  have fi: "with_stat f (index_records ?c (log_records abi ?d ?h)) = file_index abi path f"
    by (simp add: file_index_def)
  have ef: "elems (fresh_cache path) = []" by (simp add: fresh_cache_def)
  have free: "cache_free path (caches @ [c]) = caches" if "cache_name c = path" for c
    using assms(5) cache_find_None[of path caches] that by (simp add: cache_free_def cache_find_append)
  have seek: "f_seek_err f = None" using assms(3) by (simp add: file_ok_def)
  show ?thesis
    using assms(4) unfolding rawlog_parse_new_def assms(2) header_accepted_def
    by (simp add: rd len al sc note_stat_ok[OF assms(3)] fi ef index_records_empty free seek Let_def)
qed

lemma rebuild_one_spec:
  assumes "abi_ok abi" "fs (cache_name c) = Inr f" "file_ok f" "cache_ok c"
  defines "off \<equiv> unat (elem_off (last (elems c)))"
  shows "rawlog_rebuild_one abi fs c
    = Some (Inr (0, if length (f_data f) < off + sz_rawrecord abi then c
                    else with_stat f (index_records c (log_records abi (f_data f) (record_end abi (f_data f) off)))))"
proof -
  have ne: "elems c \<noteq> []" and off: "off < 2 ^ 62"
    using assms(4) by (auto simp: cache_ok_def off_def)
  have w: "elem_off (last (elems c)) = of_nat off" by (simp add: off_def)
  have rd: "pread f (sz_rawrecord abi) (of_nat off) = Rd_bytes (take (sz_rawrecord abi) (drop off (f_data f)))"
    by (rule pread_in[OF assms(3)]) (use off in simp)
  have sz: "0 < sz_rawrecord abi" using assms(1) by (simp add: abi_ok_def)
  show ?thesis
  proof (cases "length (f_data f) < off + sz_rawrecord abi")
    case True
    then have "length (take (sz_rawrecord abi) (drop off (f_data f))) < sz_rawrecord abi" using sz by auto
    with True show ?thesis using ne by (simp add: rawlog_rebuild_one_def assms(2) Let_def w rd)
  next
    case False
    then have full: "\<not> length (take (sz_rawrecord abi) (drop off (f_data f))) < sz_rawrecord abi" by simp
    have "record_end abi (f_data f) off < 2 ^ 62 + 2 ^ 33"
      by (rule record_end_bound[OF assms(1)]) (use False assms(3) in \<open>auto simp: file_ok_def\<close>)
    from scan_spec[OF assms(1,3) this] full False show ?thesis using ne
      by (simp add: rawlog_rebuild_one_def assms(2) Let_def w rd record_at_def[symmetric] next_off_of_nat
          note_stat_ok[OF assms(3)])
  qed
qed

section \<open>Reading the same file again\<close>

lemma cache_set_with_stat: "cache_set t off (with_stat f c) = with_stat f (cache_set t off c)"
  by (simp add: cache_set_def with_stat_def Let_def)

lemma index_records_with_stat: "index_records (with_stat f c) rs = with_stat f (index_records c rs)"
  by (induction rs arbitrary: c) (auto simp: cache_set_with_stat)

lemma with_stat_twice: "with_stat f' (with_stat f c) = with_stat f' c"
  by (simp add: with_stat_def)

lemma file_index_sel [simp]:
  "cache_name (file_index abi path f) = path"
  "st_size (file_index abi path f) = int (length (f_data f))"
  by (simp_all add: file_index_def with_stat_def)

lemma file_index_elems:
  "cache_inv (file_index abi path f)"
  "mset (elems (file_index abi path f)) = mset (map entry_of (log_records abi (f_data f) (sz_rawheader abi)))"
  "elems (file_index abi path f) = [] \<longleftrightarrow> log_records abi (f_data f) (sz_rawheader abi) = []"
proof -
  let ?c = "(fresh_cache path)\<lparr>cache_flags := rh_supportflags (dec_header abi (take (sz_rawheader abi) (f_data f)))\<rparr>"
  have c: "cache_inv ?c" "elems ?c = []" by (simp_all add: cache_inv_def times_def fresh_cache_def)
  show "cache_inv (file_index abi path f)" by (simp add: file_index_def index_records_inv[OF c(1)])
  show "mset (elems (file_index abi path f)) = mset (map entry_of (log_records abi (f_data f) (sz_rawheader abi)))"
    using index_records_mset[OF c(1)] c(2) by (simp add: file_index_def)
  show "elems (file_index abi path f) = [] \<longleftrightarrow> log_records abi (f_data f) (sz_rawheader abi) = []"
    using c(2) by (simp add: file_index_def index_records_empty)
qed

lemma file_index_cache_ok:
  assumes "file_ok f" "log_records abi (f_data f) (sz_rawheader abi) \<noteq> []"
  shows "cache_ok (file_index abi path f)"
  unfolding file_index_def with_stat_sel
  by (rule index_records_ok) (use assms in \<open>auto simp: cache_inv_def times_def fresh_cache_def\<close>)

lemma file_index_sorted:
  assumes "sorted (map fst (log_records abi (f_data f) (sz_rawheader abi)))"
  shows "elems (file_index abi path f) = map entry_of (log_records abi (f_data f) (sz_rawheader abi))"
proof -
  let ?c = "(fresh_cache path)\<lparr>cache_flags := rh_supportflags (dec_header abi (take (sz_rawheader abi) (f_data f)))\<rparr>"
  have "cache_inv ?c" "sorted (times ?c @ map fst (log_records abi (f_data f) (sz_rawheader abi)))" "elems ?c = []"
    using assms by (simp_all add: cache_inv_def times_def fresh_cache_def)
  from index_records_sorted[OF this(1,2)] this(3) show ?thesis by (simp add: file_index_def)
qed

lemma parse_one_new:
  assumes "path \<notin> set (cache_names caches)"
  shows "rawlog_parse_one abi fs path caches = rawlog_parse_new abi fs path caches"
  using assms cache_find_None[of path caches] by (simp add: rawlog_parse_one_def)

lemma parse_one_known:
  assumes "path \<notin> set (cache_names caches)" "cache_name c = path" "fs path = Inr f" "f_stat_err f = None"
    and "st_size c \<noteq> int (length (f_data f))"
  shows "rawlog_parse_one abi fs path (caches @ [c])
    = and_run (rawlog_rebuild_one abi fs c) (\<lambda>(ret, c). Some (Inr (ret, caches @ [c])))"
proof -
  have "cache_find path caches = None" using assms(1) by (simp add: cache_find_None)
  then have "cache_find path (caches @ [c]) = Some (length caches)" using assms(2) by (simp add: cache_find_append)
  with assms(3-5) show ?thesis by (simp add: rawlog_parse_one_def list_update_append)
qed

section \<open>Tables stay good\<close>

lemma table_ok_update:
  assumes "table_ok caches" "i < length caches" "cache_ok c" "cache_name c = cache_name (caches ! i)"
  shows "table_ok (caches[i := c]) \<and> cache_names (caches[i := c]) = cache_names caches"
proof -
  have "cache_names (caches[i := c]) = cache_names caches"
    using assms(2,4) by (simp add: map_update list_update_same_conv)
  moreover have "set (caches[i := c]) \<subseteq> insert c (set caches)" by (rule set_update_subset_insert)
  ultimately show ?thesis using assms(1,3) unfolding table_ok_def by auto
qed

lemma rebuild_one_keeps:
  assumes "abi_ok abi" "fs (cache_name c) = Inr f" "file_ok f" "cache_ok c"
  shows "\<exists>c'. rawlog_rebuild_one abi fs c = Some (Inr (0, c')) \<and> cache_ok c' \<and> cache_name c' = cache_name c"
proof -
  have c: "cache_inv c" "\<forall>e \<in> set (elems c). unat (elem_off e) < 2 ^ 62" "elems c \<noteq> []"
    using assms(4) by (auto simp: cache_ok_def)
  from rebuild_one_spec[where abi = abi and fs = fs and c = c, OF assms]
    index_records_ok[OF c(1,2) assms(3)] c(3) assms(4)
  show ?thesis by (auto split: if_splits)
qed

lemma parse_one_keeps:
  assumes "abi_ok abi" "table_ok caches" "\<And>f. fs path = Inr f \<Longrightarrow> file_ok f"
  shows "\<exists>ret caches'. rawlog_parse_one abi fs path caches = Some (Inr (ret, caches')) \<and> table_ok caches'
    \<and> set (cache_names caches) \<subseteq> set (cache_names caches')
    \<and> (\<forall>f. fs path = Inr f \<longrightarrow> header_accepted abi f \<longrightarrow> log_records abi (f_data f) (sz_rawheader abi) \<noteq> []
         \<longrightarrow> path \<in> set (cache_names caches'))"
proof (cases "cache_find path caches")
  case (Some i)
  note i = cache_find_Some[OF Some]
  have mem: "path \<in> set (cache_names caches)" using i(1,2) nth_mem[OF i(1)] by auto
  show ?thesis
  proof (cases "\<exists>f. fs path = Inr f \<and> f_stat_err f = None \<and> st_size (caches ! i) \<noteq> int (length (f_data f))")
    case True
    then obtain f where f: "fs path = Inr f" "f_stat_err f = None" "st_size (caches ! i) \<noteq> int (length (f_data f))"
      by blast
    have "cache_ok (caches ! i)" using assms(2) i(1) by (simp add: table_ok_def)
    with rebuild_one_keeps[of abi fs "caches ! i" f] assms(1,3) f i(2) obtain c' where
      c': "rawlog_rebuild_one abi fs (caches ! i) = Some (Inr (0, c'))" "cache_ok c'" "cache_name c' = path"
      by auto
    have run: "rawlog_parse_one abi fs path caches = Some (Inr (0, caches[i := c']))"
      using Some f c'(1) by (simp add: rawlog_parse_one_def)
    have t: "table_ok (caches[i := c'])" and n: "cache_names (caches[i := c']) = cache_names caches"
      using table_ok_update[OF assms(2) i(1) c'(2)] c'(3) i(2) by auto
    have "path \<in> set (cache_names (caches[i := c']))" "set (cache_names caches) \<subseteq> set (cache_names (caches[i := c']))"
      unfolding n using mem by auto
    with run t show ?thesis by blast
  next
    case False
    then have "\<exists>ret. rawlog_parse_one abi fs path caches = Some (Inr (ret, caches))"
      using Some by (auto simp: rawlog_parse_one_def split: sum.splits option.splits)
    with assms(2) mem show ?thesis by auto
  qed
next
  case None
  then have new: "path \<notin> set (cache_names caches)" by (simp add: cache_find_None)
  show ?thesis
  proof (cases "\<exists>f. fs path = Inr f \<and> header_accepted abi f")
    case True
    then obtain f where f: "fs path = Inr f" "header_accepted abi f" by blast
    let ?rs = "log_records abi (f_data f) (sz_rawheader abi)"
    note run = parse_new_spec[of abi fs path f caches, OF assms(1) f(1) assms(3)[OF f(1)] f(2) new]
    have ok: "table_ok (if ?rs = [] then caches else caches @ [file_index abi path f])"
      using assms(2) new file_index_cache_ok[OF assms(3)[OF f(1)]] by (auto simp: table_ok_def)
    show ?thesis
      unfolding parse_one_new[OF new] run using ok f(1) by auto
  next
    case False
    have "\<exists>ret. rawlog_parse_new abi fs path caches = Some (Inr (ret, caches))"
    proof (cases "fs path")
      case (Inr f)
      have rd: "pread f (sz_rawheader abi) 0 = Rd_bytes (take (sz_rawheader abi) (f_data f))"
        using pread_in[OF assms(3)[OF Inr], of 0] by simp
      show ?thesis
        using False Inr rd by (auto simp: rawlog_parse_new_def header_accepted_def Let_def)
    qed (simp add: rawlog_parse_new_def)
    with False assms(2) show ?thesis unfolding parse_one_new[OF new] by auto
  qed
qed

lemma parse_entries_keeps:
  assumes "abi_ok abi" "\<And>p f. fs p = Inr f \<Longrightarrow> file_ok f" "table_ok caches"
    and "\<forall>(n, r) \<in> set ds. r \<longrightarrow> length (path @ ''/'' @ n) < PATH_MAX"
  shows "\<exists>caches'. parse_entries abi fs path ds caches = Some (Inr caches') \<and> table_ok caches'
    \<and> set (cache_names caches) \<subseteq> set (cache_names caches')
    \<and> (\<forall>n f. (n, True) \<in> set ds \<longrightarrow> fs (path @ ''/'' @ n) = Inr f \<longrightarrow> header_accepted abi f
         \<longrightarrow> log_records abi (f_data f) (sz_rawheader abi) \<noteq> [] \<longrightarrow> path @ ''/'' @ n \<in> set (cache_names caches'))"
  using assms(3,4)
proof (induction ds arbitrary: caches)
  case (Cons d ds)
  obtain n r where d: "d = (n, r)" by (cases d)
  show ?case
  proof (cases r)
    case False
    with Cons d show ?thesis by auto
  next
    case True
    let ?p = "path @ ''/'' @ n"
    from parse_one_keeps[OF assms(1) Cons.prems(1), of fs ?p] assms(2) obtain ret c1 where
      c1: "rawlog_parse_one abi fs ?p caches = Some (Inr (ret, c1))" "table_ok c1"
        "set (cache_names caches) \<subseteq> set (cache_names c1)"
        "\<And>f. fs ?p = Inr f \<Longrightarrow> header_accepted abi f \<Longrightarrow> log_records abi (f_data f) (sz_rawheader abi) \<noteq> []
           \<Longrightarrow> ?p \<in> set (cache_names c1)" by blast
    have len: "length ?p < PATH_MAX" using Cons.prems(2) d True by auto
    from Cons.IH[OF c1(2)] Cons.prems(2) obtain c2 where
      c2: "parse_entries abi fs path ds c1 = Some (Inr c2)" "table_ok c2"
        "set (cache_names c1) \<subseteq> set (cache_names c2)"
        "\<forall>n f. (n, True) \<in> set ds \<longrightarrow> fs (path @ ''/'' @ n) = Inr f \<longrightarrow> header_accepted abi f
         \<longrightarrow> log_records abi (f_data f) (sz_rawheader abi) \<noteq> [] \<longrightarrow> path @ ''/'' @ n \<in> set (cache_names c2)"
      by auto
    have "parse_entries abi fs path (d # ds) caches = Some (Inr c2)"
      using d True len c1(1) c2(1) by (simp add: Let_def)
    moreover have "set (cache_names caches) \<subseteq> set (cache_names c2)" using c1(3) c2(3) by (rule subset_trans)
    moreover have "path @ ''/'' @ m \<in> set (cache_names c2)"
      if "(m, True) \<in> set (d # ds)" "fs (path @ ''/'' @ m) = Inr f" "header_accepted abi f"
        "log_records abi (f_data f) (sz_rawheader abi) \<noteq> []" for m f
    proof (cases "m = n")
      case True
      with c1(4) that(2-4) c2(3) show ?thesis by blast
    next
      case False
      with that d have "(m, True) \<in> set ds" by auto
      with c2(4) that(2-4) show ?thesis by blast
    qed
    ultimately show ?thesis using c2(2) by blast
  qed
qed simp

lemma table_ok_sort: "table_ok (cache_sort caches) = table_ok caches"
proof -
  have m: "mset (cache_sort caches) = mset caches" by (rule cs.mset_srt)
  then have "mset (cache_names (cache_sort caches)) = mset (cache_names caches)" by simp
  then have "distinct (cache_names (cache_sort caches)) = distinct (cache_names caches)"
    by (metis distinct_count_atmost_1 set_mset_mset)
  with m show ?thesis unfolding table_ok_def by (metis set_mset_mset)
qed

text \<open>In a good table no lookup faults.\<close>

lemma cache_get_from_defined: "\<forall>c \<in> set cs. elems c \<noteq> [] \<Longrightarrow> \<exists>r. cache_get_from k t cs = Inr r"
  by (induction cs arbitrary: k) auto

lemma cache_get_defined:
  assumes "table_ok caches" "\<forall>c \<in> set caches. nr_elems c \<le> 2 ^ 30"
  shows "\<exists>r. cache_get t caches = Inr r"
proof -
  from assms(1) obtain r where r: "cache_covering t caches = Inr r"
    using cache_get_from_defined[of caches 0 t] by (auto simp: table_ok_def cache_ok_def cache_covering_def)
  show ?thesis
  proof (cases r)
    case None
    with r show ?thesis by (simp add: cache_get_def)
  next
    case (Some i)
    from cache_covering_index[of 0 t caches i] r Some have
      i: "i < length caches" "elems (caches ! i) \<noteq> []" "covers (caches ! i) t" by (auto simp: cache_covering_def)
    have c: "cache_inv (caches ! i)" "nr_elems (caches ! i) \<le> 2 ^ 30"
      using assms i(1) by (auto simp: table_ok_def cache_ok_def)
    have "t \<le> elem_time (last (elems (caches ! i)))" using i(2,3) by (simp add: covers_def last_conv_nth)
    then obtain k where "bsearch (elems (caches ! i)) t 0 (nr_elems (caches ! i)) = Inr (elem_off (elems (caches ! i) ! k))"
      using bsearch_correct[of "elems (caches ! i)" 0 "nr_elems (caches ! i)" t] c i(2)
      by (auto simp: cache_inv_def times_def)
    with r Some i(2) show ?thesis by (simp add: cache_get_def Let_def)
  qed
qed

section \<open>When reads fail\<close>

text \<open>
  When every read either fails or is complete, the loop does not end: \<open>len < sizeof (rr)\<close> is
  never true.
\<close>

lemma scan_diverges:
  assumes "\<forall>off bs. pread f (sz_rawrecord abi) off = Rd_bytes bs \<longrightarrow> sz_rawrecord abi \<le> length bs"
  shows "scan abi f (Some r) off c = None"
proof -
  have "scan abi' f' rr off c = Some y \<Longrightarrow>
      abi' = abi \<longrightarrow> f' = f \<longrightarrow> rr \<noteq> None \<longrightarrow> False" for abi' f' rr off c y
  proof (induction rule: scan.raw_induct[rotated, consumes 1])
    case (1 scan' abi' f' rr off c y)
    show ?case
    proof (intro impI)
      assume eq: "abi' = abi" "f' = f" "rr \<noteq> None"
      with 1(2) assms show False
        by (cases "pread f (sz_rawrecord abi) off") (use 1(1) in \<open>fastforce split: if_splits\<close>)+
    qed
  qed
  from this[of abi f "Some r" off c] show ?thesis by (cases "scan abi f (Some r) off c") blast+
qed

section \<open>The lists of tasks\<close>

text \<open>The positions, from \<open>k\<close> on, of the tasks with a property.\<close>

fun positions :: "(tstat \<Rightarrow> bool) \<Rightarrow> nat \<Rightarrow> tstat list \<Rightarrow> nat list" where
  "positions P k [] = []"
| "positions P k (t # ts) = (if P t then [k] else []) @ positions P (Suc k) ts"

definition is_process :: "tstat \<Rightarrow> bool" where
  "is_process t \<longleftrightarrow> tg_isproc (ts_gen t) \<noteq> 0"

definition is_active :: "tstat \<Rightarrow> bool" where
  "is_active t \<longleftrightarrow> tg_wasinactive (ts_gen t) = 0"

definition is_active_process :: "tstat \<Rightarrow> bool" where
  "is_active_process t \<longleftrightarrow> is_process t \<and> is_active t"

lemmas task_kinds = is_process_def is_active_def is_active_process_def

lemma devtstat_loop_spec:
  assumes "\<forall>j < length ts. task (k + j) = Inr (ts ! j)"
    and "length (ds_procall s) \<le> capp" "length (ds_procactive s) \<le> capa"
  shows "devtstat_loop task capp capa k (length ts) s =
    (if length (ds_procall s) + length (positions is_process k ts) \<le> capp
        \<and> length (ds_procactive s) + length (positions is_active_process k ts) \<le> capa
     then Inr (s\<lparr>ds_tasks := ds_tasks s @ ts,
                 ds_procall := ds_procall s @ positions is_process k ts,
                 ds_procactive := ds_procactive s @ positions is_active_process k ts,
                 ds_ntaskactive := ds_ntaskactive s + length (filter is_active ts)\<rparr>)
     else Inl OutOfBounds)"
  using assms
proof (induction ts arbitrary: k s)
  case (Cons t ts)
  have t: "task k = Inr t" using Cons.prems(1) by force
  have tl: "\<forall>j < length ts. task (Suc k + j) = Inr (ts ! j)" using Cons.prems(1) by force
  show ?case
  proof (cases "devtstat_step capp capa k t s")
    case (Inl e)
    then have "e = OutOfBounds" "is_process t"
      "length (ds_procall s) = capp \<or> is_active t \<and> length (ds_procactive s) = capa"
      using Cons.prems(2,3)
      by (auto simp: devtstat_step_def push_ptr_def task_kinds Let_def and_then_def split: if_splits sum.splits)
    then show ?thesis using t Inl by (auto simp: is_active_process_def)
  next
    case (Inr s')
    then have s': "s' = s\<lparr>ds_tasks := ds_tasks s @ [t],
        ds_procall := ds_procall s @ (if is_process t then [k] else []),
        ds_procactive := ds_procactive s @ (if is_active_process t then [k] else []),
        ds_ntaskactive := ds_ntaskactive s + (if is_active t then 1 else 0)\<rparr>"
      "length (ds_procall s') \<le> capp" "length (ds_procactive s') \<le> capa"
      using Cons.prems(2,3)
      by (auto simp: devtstat_step_def push_ptr_def task_kinds Let_def and_then_Inr_iff split: if_splits)
    show ?thesis
      using t Inr Cons.IH[OF tl s'(2,3)] s'(1) by simp
  qed
qed simp

lemma read_obj_in:
  "(i + 1) * sz \<le> cap \<Longrightarrow> (i + 1) * sz \<le> length out \<Longrightarrow>
     read_obj dec sz cap out i = Inr (dec (take sz (drop (i * sz) out)))"
  by (simp add: read_obj_def)

definition tasks_of :: "abi \<Rightarrow> nat \<Rightarrow> bytes \<Rightarrow> tstat list" where
  "tasks_of abi n out = map (\<lambda>k. dec_tstat abi (take (sz_tstat abi) (drop (k * sz_tstat abi) out))) [0..<n]"

definition devtstat_of :: "rawrecord \<Rightarrow> tstat list \<Rightarrow> devtstat" where
  "devtstat_of rr ts = \<lparr>taskall = ts, procall = positions is_process 0 ts,
     procactive = positions is_active_process 0 ts, ntaskall = length ts,
     nprocall = length (positions is_process 0 ts),
     nprocactive = length (positions is_active_process 0 ts),
     ntaskactive = length (filter is_active ts), totrun = rr_totrun rr, totslpi = rr_totslpi rr,
     totslpu = rr_totslpu rr, totzombie = rr_totzomb rr\<rparr>"

lemma unat_mult64: "a < 2 ^ 64 \<Longrightarrow> unat (of_nat a * w :: 64 word) = a * unat w"
  if "a * unat w < 2 ^ 64" for w :: "64 word"
  using that by (simp add: unat_word_ariths unat_of_nat take_bit_nat_eq_self)

lemma get_devtstat_spec:
  assumes "\<forall>n. malloc_ok abi n"
    and "rawlog_uncompress_record abi f pos (sz_tstat abi * unat (rr_ndeviat rr)) (unat (rr_pcomplen rr)) = (0, out, pos')"
    and "length out = sz_tstat abi * unat (rr_ndeviat rr)" "sz_tstat abi * unat (rr_ndeviat rr) < 2 ^ 64"
    and "sz_tstat abi < 2 ^ 64" "unat (rr_totproc rr) < 2 ^ 61" "unat (rr_nactproc rr) < 2 ^ 61"
  defines "ts \<equiv> tasks_of abi (unat (rr_ndeviat rr)) out"
  shows "rawlog_get_devtstat abi f pos rr =
    (if length (positions is_process 0 ts) \<le> unat (rr_totproc rr)
        \<and> length (positions is_active_process 0 ts) \<le> unat (rr_nactproc rr)
     then Inr (0, Some (devtstat_of rr ts)) else Inl OutOfBounds)"
proof -
  let ?n = "unat (rr_ndeviat rr)" and ?sz = "sz_tstat abi"
  have outlen: "unat (of_nat ?sz * rr_ndeviat rr) = ?sz * ?n"
    by (rule unat_mult64) (use assms(4,5) in auto)
  have szp: "unat (of_nat ptr_size * rr_totproc rr) div ptr_size = unat (rr_totproc rr)"
    "unat (of_nat ptr_size * rr_nactproc rr) div ptr_size = unat (rr_nactproc rr)"
    using assms(6,7) unat_mult64[where a = 8] by (auto simp: ptr_size_def)
  have len: "length ts = ?n" by (simp add: ts_def tasks_of_def)
  have tasks: "\<forall>j < length ts. read_obj (dec_tstat abi) ?sz (?sz * ?n) out (0 + j) = Inr (ts ! j)"
  proof (intro allI impI)
    fix j assume "j < length ts"
    then have j: "j < ?n" by (simp add: len)
    then have "(j + 1) * ?sz \<le> ?sz * ?n" by (metis Suc_eq_plus1 Suc_leI mult.commute mult_le_mono1)
    with j show "read_obj (dec_tstat abi) ?sz (?sz * ?n) out (0 + j) = Inr (ts ! j)"
      using assms(3) by (simp add: read_obj_in ts_def tasks_of_def)
  qed
  show ?thesis
    unfolding rawlog_get_devtstat_def Let_def outlen szp assms(2) prod.case
    using assms(1) devtstat_loop_spec[OF tasks, of "\<lparr>ds_tasks = [], ds_procall = [], ds_procactive = [], ds_ntaskactive = 0\<rparr>"
        "unat (rr_totproc rr)" "unat (rr_nactproc rr)"]
    by (simp add: len devtstat_of_def)
qed

section \<open>A record that is there\<close>

lemma read_at_prefix:
  assumes "file_ok f" "f_data f = pre @ bs @ post"
  shows "read_at f (length bs) (of_nat (length pre)) = (Rd_bytes bs, of_nat (length pre + length bs))"
proof -
  have "length pre < 2 ^ 63" using assms by (simp add: file_ok_def)
  from pread_in[OF assms(1) this] assms(2) show ?thesis by (simp add: read_at_def)
qed

lemma seek_result_small:
  assumes "file_ok f" "off < 2 ^ 31"
  shows "seek_result f (of_nat off) = int off"
proof -
  have "sint (ucast (of_nat off :: 64 word) :: 32 word) = int off"
  proof -
    have "ucast (word_of_int (int off) :: 64 word) = (word_of_int (int off) :: 32 word)"
      by (rule ucast_down_wi) (simp add: is_down)
    moreover have "sint (word_of_int (int off) :: 32 word) = int off"
      by (rule sint_word_of_int_in) (use assms(2) in simp_all)
    ultimately show ?thesis unfolding of_int_of_nat_eq by simp
  qed
  then show ?thesis using assms sint_of_nat64[of off] by (simp add: seek_result_def file_ok_def)
qed

definition uncompressed_to :: "abi \<Rightarrow> nat \<Rightarrow> bytes \<Rightarrow> bytes \<Rightarrow> bool" where
  "uncompressed_to abi cap src out \<longleftrightarrow> uncompress abi cap src = Some out \<and> length out = cap"

lemma uncompress_record_ok:
  assumes "file_ok f" "f_data f = pre @ src @ post" "malloc_ok abi (length src)" "uncompressed_to abi cap src out"
  shows "rawlog_uncompress_record abi f (of_nat (length pre)) cap (length src)
    = (0, out, of_nat (length pre + length src))"
  using assms read_at_prefix[OF assms(1,2)]
  by (simp add: rawlog_uncompress_record_def uncompressed_to_def)

section \<open>A layout for the witnesses\<close>

text \<open>
  A header of one byte, records of four one-byte fields (time, the two lengths, the number of tasks),
  and no compression.
\<close>

definition byte_word :: "byte \<Rightarrow> 64 word" where
  "byte_word c = of_nat (of_char c)"

definition byte_at :: "bytes \<Rightarrow> nat \<Rightarrow> byte" where
  "byte_at bs i = (case drop i bs of [] \<Rightarrow> NUL | c # _ \<Rightarrow> c)"

definition sample_abi :: abi where
  "sample_abi = \<lparr>sz_rawheader = 1, sz_rawrecord = 4, sz_sstat = 1, sz_tstat = 1, MYMAGIC = 77, numvers = 1,
     dec_header = \<lambda>bs. \<lparr>rh_magic = of_nat (of_char (byte_at bs 0)), rh_aversion = 0, rh_rawheadlen = 1, rh_rawreclen = 4,
       rh_supportflags = 0, rh_sstatlen = 1, rh_tstatlen = 1\<rparr>,
     dec_record = \<lambda>bs. \<lparr>rr_curtime = of_char (byte_at bs 0), rr_flags = 0, rr_scomplen = byte_word (byte_at bs 1),
       rr_pcomplen = byte_word (byte_at bs 2), rr_interval = 10, rr_ndeviat = byte_word (byte_at bs 3), rr_nactproc = 1,
       rr_totproc = 1, rr_totrun = 0, rr_totslpi = 0, rr_totslpu = 0, rr_totzomb = 0\<rparr>,
     dec_sstat = \<lambda>_. zero_sstat, dec_tstat = \<lambda>_. zero_tstat,
     uncompress = \<lambda>cap src. if length src \<le> cap then Some src else None,
     malloc_ok = \<lambda>_. True, stale_errno = 0\<rparr>"

lemma sample_abi_sel [simp]:
  "sz_rawheader sample_abi = 1" "sz_rawrecord sample_abi = 4" "sz_sstat sample_abi = 1" "sz_tstat sample_abi = 1"
  "MYMAGIC sample_abi = 77" "rh_magic (dec_header sample_abi bs) = of_nat (of_char (byte_at bs 0))"
  "rh_aversion (dec_header sample_abi bs) = 0" "rh_rawheadlen (dec_header sample_abi bs) = 1"
  "rh_rawreclen (dec_header sample_abi bs) = 4" "rh_sstatlen (dec_header sample_abi bs) = 1"
  "rh_tstatlen (dec_header sample_abi bs) = 1" "rh_supportflags (dec_header sample_abi bs) = 0"
  "rr_curtime (dec_record sample_abi bs) = of_char (byte_at bs 0)"
  "rr_scomplen (dec_record sample_abi bs) = byte_word (byte_at bs 1)"
  "rr_pcomplen (dec_record sample_abi bs) = byte_word (byte_at bs 2)"
  "rr_ndeviat (dec_record sample_abi bs) = byte_word (byte_at bs 3)"
  "rr_totproc (dec_record sample_abi bs) = 1" "rr_nactproc (dec_record sample_abi bs) = 1"
  "dec_sstat sample_abi bs = zero_sstat" "dec_tstat sample_abi bs = zero_tstat"
  "uncompress sample_abi cap src = (if length src \<le> cap then Some src else None)"
  "malloc_ok sample_abi n" "stale_errno sample_abi = 0"
  by (simp_all add: sample_abi_def)

lemma byte_at_simps [simp]:
  "byte_at (c # cs) 0 = c" "byte_at (c # cs) (Suc i) = byte_at cs i" "byte_at [] i = NUL"
  by (simp_all add: byte_at_def)

lemma byte_at_numeral [simp]: "byte_at (c # cs) (numeral n) = byte_at cs (pred_numeral n)"
  by (simp add: byte_at_def)

definition sample_file :: "bytes \<Rightarrow> rfile" where
  "sample_file bs = \<lparr>f_data = bs, f_bad = \<lambda>_. False, f_mtim = (0, 0), f_stat_err = None, f_seek_err = None\<rparr>"

lemma sample_file_sel [simp]:
  "f_data (sample_file bs) = bs" "f_seek_err (sample_file bs) = None" "f_bad (sample_file bs) = (\<lambda>_. False)"
  by (simp_all add: sample_file_def)

definition sample_log :: bytes where
  "sample_log = ''M'' @ [CHR 0x0A, CHR 0x01, CHR 0x01, CHR 0x01] @ ''st''"

definition sample_log2 :: bytes where
  "sample_log2 = [CHR 0x14, CHR 0x01, CHR 0x01, CHR 0x01] @ ''uv''"

lemma byte_word_small: "unat (byte_word c) < 256"
proof -
  have "(of_char c :: nat) < 256" by (rule nat_of_char_less_256)
  moreover have "unat (of_nat n :: 64 word) \<le> n" for n
    by (simp add: unat_of_nat)
  ultimately show ?thesis unfolding byte_word_def by (rule le_less_trans[rotated])
qed

lemma sample_abi_ok: "abi_ok sample_abi"
proof -
  have "unat (byte_word c) < 2 ^ 32" for c by (rule less_trans[OF byte_word_small]) simp
  then show ?thesis by (simp add: abi_ok_def)
qed

lemma sample_file_ok: "length bs < 100 \<Longrightarrow> file_ok (sample_file bs)"
  by (simp add: file_ok_def sample_file_def)

lemma sample_header: "header_accepted sample_abi (sample_file (CHR ''M'' # bs))"
  by (simp add: header_accepted_def rawlog_verify_rawheader_def)

lemma sample_record_at [simp]:
  "record_at sample_abi data off = dec_record sample_abi (take 4 (drop off data))"
  "record_end sample_abi data off = off + 4 + unat (byte_word (byte_at (take 4 (drop off data)) 1))
     + unat (byte_word (byte_at (take 4 (drop off data)) 2))"
  by (simp_all add: record_at_def record_end_def)

lemma sample_records:
  "log_records sample_abi sample_log 1 = [(10, 1)]"
  "log_records sample_abi (sample_log @ sample_log2) 1 = [(10, 1), (20, 7)]"
  by (simp_all add: log_records.simps[of sample_abi] sample_log_def sample_log2_def byte_word_def)

lemma get_record_run:
  assumes "\<forall>n. malloc_ok abi n" "sz_tstat abi < 2 ^ 64"
    and "pick_record ts caches = Inr (Some (cache, of_nat (length pre)))"
    and "fs (cache_name cache) = Inr f" "file_ok f" "f_data f = pre @ rb @ sc @ pc @ post" "length pre < 2 ^ 31"
    and "length rb = sz_rawrecord abi" "rr = dec_record abi rb"
    and "unat (rr_scomplen rr) = length sc" "unat (rr_pcomplen rr) = length pc"
    and "uncompressed_to abi (sz_sstat abi) sc sb"
    and "uncompressed_to abi (sz_tstat abi * unat (rr_ndeviat rr)) pc tb"
    and "sz_tstat abi * unat (rr_ndeviat rr) < 2 ^ 64"
    and "tasks = tasks_of abi (unat (rr_ndeviat rr)) tb"
    and "length (positions is_process 0 tasks) \<le> unat (rr_totproc rr)" "unat (rr_totproc rr) < 2 ^ 61"
    and "length (positions is_active_process 0 tasks) \<le> unat (rr_nactproc rr)" "unat (rr_nactproc rr) < 2 ^ 61"
  shows "rawlog_get_record abi env hook fs caches ts labels op conn
    = and_then (jsonout env hook (rawlog_record_flags (aflags env) (cache_flags cache) (rr_flags rr))
        labels (of_int (rr_curtime rr)) (rr_interval rr) (devtstat_of rr tasks)
        (dec_sstat abi (take (sz_sstat abi) sb)) op conn) (\<lambda>(_, op, conn). Inr (0, op, conn))"
proof -
  let ?p1 = "pre @ rb" and ?p2 = "pre @ rb @ sc"
  have rd: "read_at f (sz_rawrecord abi) (of_nat (length pre)) = (Rd_bytes rb, of_nat (length ?p1))"
    using read_at_prefix[OF assms(5), of pre rb] assms(6,8) by simp
  have ss: "rawlog_get_sstat abi f (of_nat (length ?p1)) (unat (rr_scomplen rr)) = (0, sb, of_nat (length ?p2))"
    using uncompress_record_ok[OF assms(5), of ?p1 sc "pc @ post" abi "sz_sstat abi" sb] assms(1,6,10,12)
    by (simp add: rawlog_get_sstat_def)
  have "rawlog_uncompress_record abi f (of_nat (length ?p2)) (sz_tstat abi * unat (rr_ndeviat rr)) (unat (rr_pcomplen rr))
      = (0, tb, of_nat (length ?p2 + length pc))"
    using uncompress_record_ok[OF assms(5), of ?p2 pc post abi _ tb] assms(1,6,11,13) by simp
  from get_devtstat_spec[OF assms(1) this _ assms(14,2,17,19)] assms(13,15,16,18)
  have dev: "rawlog_get_devtstat abi f (of_nat (length ?p2)) rr = Inr (0, Some (devtstat_of rr tasks))"
    by (simp add: uncompressed_to_def)
  have obj: "read_obj (dec_sstat abi) (sz_sstat abi) (sz_sstat abi) sb 0 = Inr (dec_sstat abi (take (sz_sstat abi) sb))"
    using assms(12) by (simp add: read_obj_def uncompressed_to_def)
  note ss' = ss[simplified length_append of_nat_add assms(8)]
  note dev' = dev[simplified length_append of_nat_add assms(8)]
  show ?thesis
    using assms(1) seek_result_small[OF assms(5,7)]
    unfolding rawlog_get_record_def assms(3,4) and_then_simps
    by (simp add: assms(4) rd assms(8) assms(9)[symmetric] ss' dev' obj Let_def)
qed

section \<open>Properties\<close>

text \<open>
  C3. Reading a log for the first time returns, and adds to the table one cache for the file whose
  entries are exactly the records of the file (time and offset, each once), in order of time. A file without
  a record leaves the table as it was.
\<close>

theorem rawlog_parse_one_indexes:
  assumes "abi_ok abi" "fs path = Inr f" "file_ok f" "header_accepted abi f" "path \<notin> set (cache_names caches)"
  defines "rs \<equiv> log_records abi (f_data f) (sz_rawheader abi)"
  shows "\<exists>c. rawlog_parse_one abi fs path caches = Some (Inr (0, if rs = [] then caches else caches @ [c]))
    \<and> cache_name c = path \<and> sorted (times c)
    \<and> mset (elems c) = mset (map (\<lambda>(t, off). \<lparr>elem_time = t, elem_off = of_nat off\<rparr>) rs)
    \<and> st_size c = int (length (f_data f))"
proof -
  have e: "entry_of = (\<lambda>(t, off). \<lparr>elem_time = t, elem_off = of_nat off\<rparr>)"
    by (auto simp: entry_of_def)
  show ?thesis
    using parse_new_spec[of abi fs path f caches, OF assms(1-5)] parse_one_new[OF assms(5), of abi fs]
      file_index_elems[of abi path f]
    unfolding rs_def e cache_inv_def by (intro exI[of _ "file_index abi path f"]) simp
qed

theorem rawlog_parse_one_indexes_witness:
  "\<exists>c. rawlog_parse_one sample_abi (\<lambda>_. Inr (sample_file sample_log)) ''/a'' [] = Some (Inr (0, [c]))
    \<and> elems c = [\<lparr>elem_time = 10, elem_off = 1\<rparr>]"
proof -
  have "header_accepted sample_abi (sample_file sample_log)"
    using sample_header by (simp add: sample_log_def)
  moreover have "file_ok (sample_file sample_log)" by (rule sample_file_ok) (simp add: sample_log_def)
  moreover have "log_records sample_abi (f_data (sample_file sample_log)) (sz_rawheader sample_abi) = [(10, 1)]"
    using sample_records(1) by simp
  ultimately show ?thesis
    using rawlog_parse_one_indexes[OF sample_abi_ok, of "\<lambda>_. Inr (sample_file sample_log)" "''/a''" "sample_file sample_log" "[]"]
    by fastforce
qed

text \<open>
  C4. Reading a file again after it has grown is the same as reading the whole file anew: the index that
  the second call brings up to date is the index that one call on the longer file builds, in every
  field. (The records that were there first are in order of time, as atop writes them.)
\<close>

theorem rawlog_reparse_incremental:
  assumes "abi_ok abi" "fs path = Inr f" "file_ok f" "fs' path = Inr f'" "file_ok f'"
    and "f_data f' = f_data f @ ext" "ext \<noteq> []" "header_accepted abi f"
    and "log_records abi (f_data f) (sz_rawheader abi) \<noteq> []"
    and "sorted (map fst (log_records abi (f_data f) (sz_rawheader abi)))"
    and "path \<notin> set (cache_names caches)"
  shows "\<exists>caches'. rawlog_parse_one abi fs path caches = Some (Inr (0, caches'))
    \<and> rawlog_parse_one abi fs' path caches' = rawlog_parse_one abi fs' path caches"
proof -
  let ?h = "sz_rawheader abi" and ?c = "file_index abi path f"
  define rs where "rs = log_records abi (f_data f) ?h"
  define last_off where "last_off = snd (last rs)"
  define rest where "rest = log_records abi (f_data f') (record_end abi (f_data f) last_off)"
  have h: "?h \<le> length (f_data f)" using assms(8) by (simp add: header_accepted_def)
  have hdr: "take ?h (f_data f') = take ?h (f_data f)" using h assms(6) by simp
  have acc': "header_accepted abi f'" using assms(8) h hdr assms(6) by (simp add: header_accepted_def)
  have rs': "log_records abi (f_data f') ?h = rs @ rest"
    using log_records_append[OF assms(9), of ext] by (simp add: assms(6) rs_def last_off_def rest_def)
  have "last rs \<in> set rs" using assms(9) by (simp add: rs_def)
  then have within: "last_off + sz_rawrecord abi \<le> length (f_data f)"
    using log_records_within[of "fst (last rs)" last_off] by (simp add: rs_def last_off_def)
  have small: "last_off < 2 ^ 62" using within assms(3) by (simp add: file_ok_def)
  have "last (elems ?c) = entry_of (last rs)"
    using file_index_sorted[OF assms(10), of path] assms(9) by (simp add: rs_def last_map)
  then have off: "unat (elem_off (last (elems ?c))) = last_off"
    using unat_of_nat64[OF small] by (simp add: entry_of_def last_off_def)
  have full: "file_index abi path f' = with_stat f' (index_records ?c rest)"
    unfolding file_index_def index_records_with_stat with_stat_twice rs' index_records_append hdr
    by (simp add: rs_def)
  have "rawlog_rebuild_one abi fs' ?c = Some (Inr (0, file_index abi path f'))"
    using rebuild_one_spec[of abi fs' ?c f', OF assms(1) _ assms(5) file_index_cache_ok[OF assms(3,9)]] assms(4)
      within record_end_append[OF within, of ext]
    by (simp add: off full rest_def assms(6))
  then have again: "rawlog_parse_one abi fs' path (caches @ [?c]) = Some (Inr (0, caches @ [file_index abi path f']))"
    using parse_one_known[where fs = fs', OF assms(11) _ assms(4), of ?c] assms(5,6,7) by (simp add: file_ok_def)
  have "rawlog_parse_one abi fs' path caches = Some (Inr (0, caches @ [file_index abi path f']))"
    using parse_new_spec[of abi fs' path f' caches, OF assms(1,4,5) acc' assms(11)] parse_one_new[OF assms(11), of abi fs'] rs' assms(9)
    by (simp add: rs_def)
  moreover have "rawlog_parse_one abi fs path caches = Some (Inr (0, caches @ [?c]))"
    using parse_new_spec[of abi fs path f caches, OF assms(1,2,3,8,11)] parse_one_new[OF assms(11), of abi fs] assms(9) by simp
  ultimately show ?thesis using again by simp
qed

theorem rawlog_reparse_incremental_witness:
  "\<exists>caches'. rawlog_parse_one sample_abi (\<lambda>_. Inr (sample_file sample_log)) ''/a'' [] = Some (Inr (0, caches'))
    \<and> rawlog_parse_one sample_abi (\<lambda>_. Inr (sample_file (sample_log @ sample_log2))) ''/a'' caches'
      = rawlog_parse_one sample_abi (\<lambda>_. Inr (sample_file (sample_log @ sample_log2))) ''/a'' []"
proof (rule rawlog_reparse_incremental[OF sample_abi_ok])
  show "header_accepted sample_abi (sample_file sample_log)" using sample_header by (simp add: sample_log_def)
qed (use sample_records in \<open>auto simp: sample_log2_def sample_log_def intro: sample_file_ok\<close>)

text \<open>
  C10. Scanning the directory returns, whatever it holds, and leaves a good table: names are unique, every
  cache has a record and is in order, and every readable log with a record is in it. After that no
  lookup, for any time, fails an assertion or leaves an array.
\<close>

theorem rawlog_parse_all_good:
  assumes "abi_ok abi" "\<forall>p f. fs p = Inr f \<longrightarrow> file_ok f" "table_ok caches"
    and "\<forall>(n, r) \<in> set ds. r \<longrightarrow> length (path @ ''/'' @ n) < PATH_MAX"
  shows "\<exists>caches'. rawlog_parse_all abi fs path (Inr ds) caches = Some (Inr (0, caches')) \<and> table_ok caches'
    \<and> (\<forall>n f. (n, True) \<in> set ds \<longrightarrow> fs (path @ ''/'' @ n) = Inr f \<longrightarrow> header_accepted abi f
         \<longrightarrow> log_records abi (f_data f) (sz_rawheader abi) \<noteq> [] \<longrightarrow> path @ ''/'' @ n \<in> set (cache_names caches'))
    \<and> ((\<forall>c \<in> set caches'. nr_elems c \<le> 2 ^ 30) \<longrightarrow> (\<forall>t. \<exists>r. cache_get t caches' = Inr r))"
proof -
  from parse_entries_keeps[OF assms(1) _ assms(3,4), of fs] assms(2) obtain c1 where
    c1: "parse_entries abi fs path ds caches = Some (Inr c1)" "table_ok c1"
      "\<forall>n f. (n, True) \<in> set ds \<longrightarrow> fs (path @ ''/'' @ n) = Inr f \<longrightarrow> header_accepted abi f
         \<longrightarrow> log_records abi (f_data f) (sz_rawheader abi) \<noteq> [] \<longrightarrow> path @ ''/'' @ n \<in> set (cache_names c1)" by auto
  have names: "set (cache_names (cache_sort c1)) = set (cache_names c1)"
    using arg_cong[OF cs.mset_srt[of c1], of set_mset] by simp
  have "rawlog_parse_all abi fs path (Inr ds) caches = Some (Inr (0, cache_sort c1))"
    by (simp add: rawlog_parse_all_def c1(1))
  moreover have "table_ok (cache_sort c1)" using c1(2) by (simp add: table_ok_sort)
  ultimately show ?thesis
    using c1(3) cache_get_defined[of "cache_sort c1"] unfolding names[symmetric] by blast
qed

theorem rawlog_parse_all_good_witness:
  "\<exists>caches'. rawlog_parse_all sample_abi (\<lambda>_. Inr (sample_file sample_log)) ''/var''
      (Inr [(''.'', False), (''a'', True)]) [] = Some (Inr (0, caches')) \<and> ''/var/a'' \<in> set (cache_names caches')"
proof -
  have "header_accepted sample_abi (sample_file sample_log)"
    using sample_header by (simp add: sample_log_def)
  moreover have "file_ok (sample_file sample_log)" by (rule sample_file_ok) (simp add: sample_log_def)
  moreover have "log_records sample_abi (f_data (sample_file sample_log)) (sz_rawheader sample_abi) = [(10, 1)]"
    using sample_records(1) by simp
  moreover have "table_ok []" by (simp add: table_ok_def)
  ultimately show ?thesis
    using rawlog_parse_all_good[OF sample_abi_ok, of "\<lambda>_. Inr (sample_file sample_log)" "[]"
        "[(''.'', False), (''a'', True)]" "''/var''"] by (fastforce simp: PATH_MAX_def)
qed



text \<open>
  C31. The lists of tasks: with a complete list of tasks, \<open>rawlog_get_devtstat\<close> fills in all tasks, the
  processes and the active processes in order, provided the record's own counts \<open>totproc\<close> and \<open>nactproc\<close>
  are not too small. When they are, it writes past the end of the allocation.
\<close>

theorem rawlog_get_devtstat_bounds:
  assumes "\<forall>n. malloc_ok abi n"
    and "rawlog_uncompress_record abi f pos (sz_tstat abi * unat (rr_ndeviat rr)) (unat (rr_pcomplen rr)) = (0, out, pos')"
    and "length out = sz_tstat abi * unat (rr_ndeviat rr)" "sz_tstat abi * unat (rr_ndeviat rr) < 2 ^ 64"
    and "sz_tstat abi < 2 ^ 64" "unat (rr_totproc rr) < 2 ^ 61" "unat (rr_nactproc rr) < 2 ^ 61"
  shows "rawlog_get_devtstat abi f pos rr =
    (let ts = tasks_of abi (unat (rr_ndeviat rr)) out
     in if length (positions is_process 0 ts) \<le> unat (rr_totproc rr)
           \<and> length (positions is_active_process 0 ts) \<le> unat (rr_nactproc rr)
        then Inr (0, Some (devtstat_of rr ts)) else Inl OutOfBounds)"
  unfolding Let_def by (rule get_devtstat_spec[OF assms])

theorem rawlog_get_devtstat_bounds_witness:
  "rawlog_get_devtstat sample_abi (sample_file ''ab'') 0
      (dec_record sample_abi [NUL, NUL, CHR 0x02, CHR 0x02]) = Inl OutOfBounds"
proof -
  let ?rr = "dec_record sample_abi [NUL, NUL, CHR 0x02, CHR 0x02]"
  have rr: "unat (rr_ndeviat ?rr) = 2" "unat (rr_pcomplen ?rr) = 2" "unat (rr_totproc ?rr) = 1"
    "unat (rr_nactproc ?rr) = 1" by (simp_all add: byte_word_def)
  have "file_ok (sample_file ''ab'')" by (rule sample_file_ok) simp
  from uncompress_record_ok[OF this, of "[]" "''ab''" "[]" sample_abi 2 "''ab''"]
  have "rawlog_uncompress_record sample_abi (sample_file ''ab'') 0 2 2 = (0, ''ab'', 2)"
    by (simp add: uncompressed_to_def numeral_2_eq_2)
  moreover have "tasks_of sample_abi 2 ''ab'' = [zero_tstat, zero_tstat]" by (simp add: tasks_of_def upt_rec)
  moreover have "is_process zero_tstat" by (simp add: is_process_def zero_tstat_def)
  ultimately show ?thesis
    using rawlog_get_devtstat_bounds[of sample_abi "sample_file ''ab''" 0 ?rr "''ab''" 2] rr by simp
qed

text \<open>
  C7. The record that the cache points to, when it is complete in the file, is what is printed: its
  sample, its tasks, its time and its interval, with the flags of the record and of the file.
\<close>

theorem rawlog_get_record_prints:
  assumes "\<forall>n. malloc_ok abi n" "sz_tstat abi < 2 ^ 64"
    and "pick_record ts caches = Inr (Some (cache, of_nat (length pre)))"
    and "fs (cache_name cache) = Inr f" "file_ok f" "f_data f = pre @ rb @ sc @ pc @ post" "length pre < 2 ^ 31"
    and "length rb = sz_rawrecord abi" "rr = dec_record abi rb"
    and "unat (rr_scomplen rr) = length sc" "unat (rr_pcomplen rr) = length pc"
    and "uncompressed_to abi (sz_sstat abi) sc sb"
    and "uncompressed_to abi (sz_tstat abi * unat (rr_ndeviat rr)) pc tb"
    and "sz_tstat abi * unat (rr_ndeviat rr) < 2 ^ 64"
    and "tasks = tasks_of abi (unat (rr_ndeviat rr)) tb"
    and "length (positions is_process 0 tasks) \<le> unat (rr_totproc rr)" "unat (rr_totproc rr) < 2 ^ 61"
    and "length (positions is_active_process 0 tasks) \<le> unat (rr_nactproc rr)" "unat (rr_nactproc rr) < 2 ^ 61"
  shows "rawlog_get_record abi env hook fs caches ts labels op conn
    = and_then (jsonout env hook (rawlog_record_flags (aflags env) (cache_flags cache) (rr_flags rr))
        labels (of_int (rr_curtime rr)) (rr_interval rr) (devtstat_of rr tasks)
        (dec_sstat abi (take (sz_sstat abi) sb)) op conn) (\<lambda>(_, op, conn). Inr (0, op, conn))"
  by (rule get_record_run) (fact assms)+

theorem rawlog_get_record_prints_witness:
  "rawlog_get_record sample_abi zero_jenv None (\<lambda>_. Inr (sample_file sample_log))
     [(fresh_cache ''/a'')\<lparr>elems := [\<lparr>elem_time = 10, elem_off = 1\<rparr>]\<rparr>] 10 (''CPU'' @ [NUL]) empty_output ()
   = and_then (jsonout zero_jenv None 0 (''CPU'' @ [NUL]) 10 10
       (devtstat_of (dec_record sample_abi [CHR 0x0A, CHR 0x01, CHR 0x01, CHR 0x01]) [zero_tstat]) zero_sstat empty_output ())
       (\<lambda>(_, op, conn). Inr (0, op, conn))"
proof -
  let ?c = "(fresh_cache ''/a'')\<lparr>elems := [\<lparr>elem_time = 10, elem_off = 1\<rparr>]\<rparr>"
  let ?rb = "[CHR 0x0A, CHR 0x01, CHR 0x01, CHR 0x01]"
  let ?rr = "dec_record sample_abi ?rb"
  have pick: "pick_record 10 [?c] = Inr (Some (?c, of_nat (length ''M'')))"
    by (simp add: pick_record_def cache_get_def cache_covering_def Let_def)
  have ok: "file_ok (sample_file sample_log)" by (rule sample_file_ok) (simp add: sample_log_def)
  have data: "f_data (sample_file sample_log) = ''M'' @ ?rb @ ''s'' @ ''t'' @ []" by (simp add: sample_log_def)
  have rr: "unat (rr_ndeviat ?rr) = 1" "unat (rr_scomplen ?rr) = 1" "unat (rr_pcomplen ?rr) = 1"
    "rr_interval ?rr = 10" "rr_flags ?rr = 0" "rr_curtime ?rr = 10" by (simp_all add: byte_word_def sample_abi_def)
  have ts: "tasks_of sample_abi 1 ''t'' = [zero_tstat]" by (simp add: tasks_of_def)
  have ps: "is_process zero_tstat" "is_active zero_tstat" by (simp_all add: task_kinds zero_tstat_def)
  have fl: "rawlog_record_flags a h 0 = 0" for a h by (simp add: rawlog_record_flags_def Let_def)
  show ?thesis
    using rawlog_get_record_prints[where abi = sample_abi and fs = "\<lambda>_. Inr (sample_file sample_log)" and sb = "''s''"
        and tb = "''t''" and env = zero_jenv and hook = None and labels = "''CPU'' @ [NUL]" and op = empty_output
        and conn = "()" and tasks = "[zero_tstat]", OF _ _ pick _ ok data _ _ refl] rr ts ps fl
    by (simp add: uncompressed_to_def is_active_process_def)
qed

text \<open>
  C32. \<open>lseek\<close>'s result is kept in an \<open>int\<close>: a record whose offset has bit 31 set is never read. The call
  takes the offset for a failure and returns minus whatever \<open>errno\<close> holds, and prints nothing.
\<close>

theorem rawlog_get_record_far_offset:
  assumes "malloc_ok abi (sz_sstat abi)" "pick_record ts caches = Inr (Some (cache, off))"
    and "fs (cache_name cache) = Inr f" "file_ok f" "bit off 31" "0 \<le> sint off"
  shows "rawlog_get_record abi env hook fs caches ts labels op conn = Inr (- int (stale_errno abi), op, conn)"
proof -
  have "bit (ucast off :: 32 word) 31" using assms(5) by (simp add: bit_simps)
  then have "sint (ucast off :: 32 word) < 0" using bit_last_iff[of "ucast off :: 32 word"] by simp
  then have "seek_result f off < 0" by (simp add: seek_result_def)
  with assms show ?thesis
    by (simp add: rawlog_get_record_def seek_errno_def file_ok_def)
qed

theorem rawlog_get_record_far_offset_witness:
  "rawlog_get_record sample_abi zero_jenv None (\<lambda>_. Inr (sample_file sample_log))
     [(fresh_cache ''/a'')\<lparr>elems := [\<lparr>elem_time = 10, elem_off = 0x80000000\<rparr>]\<rparr>] 10 (''CPU'' @ [NUL]) empty_output ()
   = Inr (0, empty_output, ())"
proof -
  let ?c = "(fresh_cache ''/a'')\<lparr>elems := [\<lparr>elem_time = 10, elem_off = 0x80000000\<rparr>]\<rparr>"
  have pick: "pick_record 10 [?c] = Inr (Some (?c, 0x80000000))"
    by (simp add: pick_record_def cache_get_def cache_covering_def Let_def)
  have "file_ok (sample_file sample_log)" by (rule sample_file_ok) (simp add: sample_log_def)
  from rawlog_get_record_far_offset[of sample_abi, OF _ pick _ this, of "\<lambda>_. Inr (sample_file sample_log)"]
  show ?thesis by simp
qed

end
