(* ===== verification/HttpRequest.thy ===== *)
theory HttpRequest
  imports HttpArgs HttpResponse RawlogProofs
begin

text \<open>
  One request: the handlers of \<open>httpd.c\<close> from \<open>http_showsamp\<close> to \<open>http_process_request\<close>.

  A handler takes the output buffer \<open>defop\<close> and the wire and returns both. What does not change while a request is
  answered is in \<open>http_env\<close>: the layout of the structures of atop and the system constants, the registry,
  \<open>compress\<close>, the files that are built into the program (the assembler directive \<open>.incbin\<close> puts them there), the
  file system and the index of the raw logs.
\<close>

section \<open>Data\<close>

datatype asset = A_help | A_favicon | A_index | A_atop_js | A_atop_parse_js | A_atop_compare_fc_js | A_css
  | A_header | A_generic | A_memory | A_disk | A_command_line

record http_env =
  he_abi :: abi
  he_jenv :: jenv
  he_reg :: registry
  he_compress :: zcompress
  he_asset :: "asset \<Rightarrow> bytes"
  he_fs :: fs
  he_caches :: cache_table

type_synonym handler = "output_t \<Rightarrow> wire \<Rightarrow> (output_t \<times> wire) res"

section \<open>Handlers\<close>

definition http_answer :: "http_env \<Rightarrow> bytes \<Rightarrow> content_type \<Rightarrow> handler" where
  "http_answer env buf ct op w =
     and_then (http_response_200 (he_reg env) w buf (length buf) Enc_none ct) (\<lambda>w. Inr (op, w))"

definition http_404_answer :: handler where
  "http_404_answer op w = and_then (http_not_found w) (\<lambda>w. Inr (op, w))"

definition err_timestamp :: string where "err_timestamp = ''missing timestamp'' @ CRLF"
definition err_lables :: string where "err_lables = ''missing lables'' @ CRLF"
definition err_encoding :: string where "err_encoding = ''encoding supports none/deflate only'' @ CRLF"
definition err_sample :: string where "err_sample = ''missing sample'' @ CRLF"

text \<open>
  \<open>lables\<close> has 1024 bytes and \<open>encoding\<close> 16, both without an initialiser. The record is looked up with the
  string that is in \<open>lables\<close>.
\<close>

definition showsamp_encoding :: "bytes \<Rightarrow> content_encoding option res" where
  "showsamp_encoding req =
     and_then (http_arg_str req ''encoding'' (uninit 16) 16) (\<lambda>(ret, encoding).
       if ret = 0
       then and_then (cbuf_str encoding) (\<lambda>e.
              if e = ''none'' then Inr (Some Enc_none)
              else if e = ''deflate'' then Inr (Some Enc_deflate)
              else Inr None)
       else Inr (Some Enc_deflate))"

definition http_showsamp :: "http_env \<Rightarrow> bytes \<Rightarrow> handler" where
  "http_showsamp env req op w =
     and_then (http_arg_long req ''timestamp'') (\<lambda>(ret, ts).
       if ret < 0 then http_answer env err_timestamp Ct_html op w
       else and_then (http_arg_str req ''lables'' (uninit 1024) 1024) (\<lambda>(ret, lables).
         if ret < 0 then http_answer env err_lables Ct_html op w
         else and_then (showsamp_encoding req) (\<lambda>enc.
           case enc of
             None \<Rightarrow> http_answer env err_encoding Ct_html (op\<lparr>out_encoding := Enc_deflate\<rparr>) w
           | Some e \<Rightarrow>
             let op = op\<lparr>out_encoding := e\<rparr>
             in and_then (cbuf_str lables) (\<lambda>ls.
                and_then (rawlog_get_record (he_abi env) (he_jenv env)
                      (Some (http_show_samp_done (he_reg env) (he_compress env)))
                      (he_fs env) (he_caches env) (case ts of None \<Rightarrow> 0 | Some t \<Rightarrow> t) (ls @ [NUL]) op w)
                  (\<lambda>(ret, op, w).
                    if ret < 0 then http_answer env err_sample Ct_html op w else Inr (op, w))))))"

text \<open>The files of the program, and the type each is sent with.\<close>

definition http_help :: "http_env \<Rightarrow> handler" where "http_help env = http_answer env (he_asset env A_help) Ct_html"
definition http_favicon :: "http_env \<Rightarrow> handler" where "http_favicon env = http_answer env (he_asset env A_favicon) Ct_html"
definition http_index :: "http_env \<Rightarrow> handler" where "http_index env = http_answer env (he_asset env A_index) Ct_html"
definition http_get_atop_js :: "http_env \<Rightarrow> handler" where
  "http_get_atop_js env = http_answer env (he_asset env A_atop_js) Ct_javascript"
definition http_get_atop_parse_js :: "http_env \<Rightarrow> handler" where
  "http_get_atop_parse_js env = http_answer env (he_asset env A_atop_parse_js) Ct_javascript"
definition http_get_atop_compare_fc_js :: "http_env \<Rightarrow> handler" where
  "http_get_atop_compare_fc_js env = http_answer env (he_asset env A_atop_compare_fc_js) Ct_javascript"
definition http_get_css :: "http_env \<Rightarrow> handler" where "http_get_css env = http_answer env (he_asset env A_css) Ct_css"
definition http_get_template_header :: "http_env \<Rightarrow> handler" where
  "http_get_template_header env = http_answer env (he_asset env A_header) Ct_html"
definition http_ping :: "http_env \<Rightarrow> handler" where "http_ping env = http_answer env (''pong'' @ CRLF) Ct_html"

text \<open>Without the argument \<open>type\<close>, or when it does not fit, nothing is sent.\<close>

definition http_get_template :: "http_env \<Rightarrow> bytes \<Rightarrow> handler" where
  "http_get_template env req op w =
     and_then (http_arg_str req ''type'' (uninit 256) 256) (\<lambda>(ret, template_type).
       if ret < 0 then Inr (op, w)
       else and_then (cbuf_str template_type) (\<lambda>t.
         if t = ''generic'' then http_answer env (he_asset env A_generic) Ct_html op w
         else if t = ''memory'' then http_answer env (he_asset env A_memory) Ct_html op w
         else if t = ''disk'' then http_answer env (he_asset env A_disk) Ct_html op w
         else if t = ''command_line'' then http_answer env (he_asset env A_command_line) Ct_html op w
         else http_404_answer op w))"

definition URL_LEN :: nat where "URL_LEN = 1024"

text \<open>A chain of \<open>if (!strcmp (location, k)) h\<close>, with the last \<open>else\<close>.\<close>

fun strcmp_chain :: "bytes \<Rightarrow> (string \<times> handler) list \<Rightarrow> handler \<Rightarrow> handler" where
  "strcmp_chain location [] h0 op w = h0 op w"
| "strcmp_chain location ((k, h) # hs) h0 op w =
     and_then (c_streq location k) (\<lambda>eq. if eq then h op w else strcmp_chain location hs h0 op w)"

definition routes :: "http_env \<Rightarrow> bytes \<Rightarrow> (string \<times> handler) list" where
  "routes env req =
     [(''ping'', http_ping env),
      (''help'', http_help env),
      (''favicon.ico'', http_favicon env),
      (''showsamp'', http_showsamp env req),
      (''index.html'', http_index env),
      (''js/atop.js'', http_get_atop_js env),
      (''js/atop_parse.js'', http_get_atop_parse_js env),
      (''js/atop_compare_fc.js'', http_get_atop_compare_fc_js env),
      (''css/atop.css'', http_get_css env),
      (''template_header'', http_get_template_header env),
      (''template'', http_get_template env req)]"

text \<open>
  \<open>location\<close> has \<open>URL_LEN\<close> bytes that are 0, and gets the request up to the \<open>?\<close>.
\<close>

definition get_location :: "bytes \<Rightarrow> bytes res" where
  "get_location req =
     and_then (c_strchr req (CHR ''?'')) (\<lambda>c.
     and_then (case c of Some c \<Rightarrow> Inr (length req - length c) | None \<Rightarrow> c_strlen req) (\<lambda>n.
       if n > URL_LEN then Inl OutOfBounds else Inr (take n req @ replicate (URL_LEN - n) NUL)))"

definition http_process_request :: "http_env \<Rightarrow> bytes \<Rightarrow> handler" where
  "http_process_request env req op w =
     and_then (c_strlen req) (\<lambda>n.
       if n > URL_LEN then http_404_answer op w
       else and_then (get_location req) (\<lambda>location.
            and_then (c_strlen location) (\<lambda>l.
              if l = 0 then http_index env op w
              else strcmp_chain location (routes env req) http_404_answer op w)))"

section \<open>What handlers do to the connection\<close>

text \<open>
  A handler settles the connection when every run of it does; the rules follow the ways in which the handlers are
  put together.
\<close>

definition settling_handler :: "handler \<Rightarrow> bool" where
  "settling_handler h \<longleftrightarrow> (\<forall>op. settling (\<lambda>w. and_then (h op w) (\<lambda>(op, w). Inr w)))"

lemma settling_handlerI: "(\<And>op w op' w'. h op w = Inr (op', w') \<Longrightarrow> settled w w') \<Longrightarrow> settling_handler h"
  by (auto simp: settling_handler_def and_then_Inr_iff intro!: settling.intro)

lemma settling_handlerD: "settling_handler h \<Longrightarrow> h op w = Inr (op', w') \<Longrightarrow> settled w w'"
  unfolding settling_handler_def by (drule spec[of _ op], erule settling.settles) simp

lemma answer_settles: "he_reg env = both_types \<Longrightarrow> http_answer env buf ct op w = Inr (op', w') \<Longrightarrow> settled w w'"
  by (auto simp: http_answer_def and_then_Inr_iff intro: response_settles)

lemma answer_404_settles: "http_404_answer op w = Inr (op', w') \<Longrightarrow> settled w w'"
  by (auto simp: http_404_answer_def and_then_Inr_iff intro: not_found.settles)

lemma samp_done_conn:
  "output_samp_done (Some hook) op w = Inr (op', w') \<Longrightarrow> hook op w = Inr w'"
  by (auto simp: output_samp_done_def and_then_Inr_iff split: if_splits option.splits)

lemma jsonout_conn:
  "jsonout env (Some hook) flags pd t n dev ss op w = Inr (r, op', w') \<Longrightarrow> \<exists>op1. hook op1 w = Inr w'"
  by (auto simp: jsonout_def and_then_Inr_iff dest!: samp_done_conn split: if_splits)

lemma get_record_cases:
  assumes "rawlog_get_record abi env hook fs caches ts ls op w = Inr (r, op', w')"
  shows "(op' = op \<and> w' = w) \<or>
    (r = 0 \<and> (\<exists>flags t n dev ss r'. jsonout env hook flags ls t n dev ss op w = Inr (r', op', w')))"
proof (rule ccontr)
  assume no: "\<not> ?thesis"
  then have changed: "\<not> (op' = op \<and> w' = w)" by blast
  with assms obtain c off where pick: "pick_record ts caches = Inr (Some (c, off))"
    by (auto simp: rawlog_get_record_def and_then_Inr_iff split: if_splits option.splits)
  with assms changed obtain f where f: "fs (cache_name c) = Inr f" "\<not> seek_result f off < 0"
    by (auto simp: rawlog_get_record_def split: if_splits sum.splits)
  obtain rd pos where rd: "read_at f (sz_rawrecord abi) off = (rd, pos)" by (cases "read_at f (sz_rawrecord abi) off")
  with assms changed pick f obtain bs where bs: "rd = Rd_bytes bs" "length bs = sz_rawrecord abi"
    by (cases rd) (auto simp: rawlog_get_record_def split: if_splits)
  obtain r1 sb pos1 where ss: "rawlog_get_sstat abi f pos (unat (rr_scomplen (dec_record abi bs))) = (r1, sb, pos1)"
    by (cases "rawlog_get_sstat abi f pos (unat (rr_scomplen (dec_record abi bs)))") auto
  from assms no pick f rd bs ss show False
    by (auto simp: rawlog_get_record_def and_then_Inr_iff Let_def split: if_splits option.splits)
qed

lemma get_record_conn:
  "rawlog_get_record abi env (Some hook) fs caches ts ls op w = Inr (r, op', w') \<Longrightarrow>
     w' = w \<or> (\<exists>op1. hook op1 w = Inr w')"
  by (drule get_record_cases) (auto dest: jsonout_conn)

text \<open>
  \<open>http_showsamp\<close> answers at most once more after a record: only when nothing was printed.
\<close>

lemma get_record_fails_silently:
  "rawlog_get_record abi env hook fs caches ts ls op w = Inr (r, op', w') \<Longrightarrow> r \<noteq> 0 \<Longrightarrow> w' = w \<and> op' = op"
  by (drule get_record_cases) auto

lemma get_record_settles:
  assumes "he_reg env = both_types"
    and "rawlog_get_record abi je (Some (http_show_samp_done (he_reg env) zc)) fs caches t ls op w = Inr (r, op1, w1)"
    and "(if r < 0 then http_answer env buf ct op1 w1 else Inr (op1, w1)) = Inr (op', w')"
  shows "settled w w'"
proof (cases "r < 0")
  case True
  with get_record_fails_silently[OF assms(2)] assms(3) answer_settles[OF assms(1)] show ?thesis by simp
next
  case False
  with assms(3) have "w1 = w'" by simp
  with get_record_conn[OF assms(2)] show_samp_done_settles[of zc _ w w'] assms(1) show ?thesis
    by (auto simp: settled_def[of w w])
qed

lemma answer_yields: "he_reg env = both_types \<Longrightarrow> yields (\<lambda>(op', w'). settled w w') (http_answer env buf ct op w)"
  by (auto simp: yields_def dest: answer_settles)

lemma get_record_yields:
  "he_reg env = both_types \<Longrightarrow>
   yields (\<lambda>(op', w'). settled w w')
     (and_then (rawlog_get_record abi je (Some (http_show_samp_done (he_reg env) zc)) fs caches t ls op w)
       (\<lambda>(r, op1, w1). if r < 0 then http_answer env buf ct op1 w1 else Inr (op1, w1)))"
  unfolding yields_def and_then_Inr_iff by (auto simp only: case_prod_conv intro: get_record_settles)

lemma showsamp_settles:
  assumes "he_reg env = both_types" "http_showsamp env req op w = Inr (op', w')"
  shows "settled w w'"
proof -
  have "yields (\<lambda>(op', w'). settled w w') (http_showsamp env req op w)"
    unfolding http_showsamp_def Let_def
    by (rule answer_yields[OF assms(1)] get_record_yields[OF assms(1)] | rule yields_splits)+
  from yieldsD[OF this assms(2)] show ?thesis by simp
qed

lemma template_settles:
  assumes "he_reg env = both_types" "http_get_template env req op w = Inr (op', w')"
  shows "settled w w'"
proof -
  have keep: "yields (\<lambda>(op', w'). settled w w') (Inr (op, w))" by (simp add: yields_def settled_def)
  have miss: "yields (\<lambda>(op', w'). settled w w') (http_404_answer op w)"
    by (auto simp: yields_def dest: answer_404_settles)
  have "yields (\<lambda>(op', w'). settled w w') (http_get_template env req op w)"
    unfolding http_get_template_def
    by (rule answer_yields[OF assms(1)] keep miss | rule yields_splits)+
  from yieldsD[OF this assms(2)] show ?thesis by simp
qed

lemma strcmp_chain_settles:
  "settling_handler h0 \<Longrightarrow> \<forall>(k, h) \<in> set hs. settling_handler h \<Longrightarrow> settling_handler (strcmp_chain location hs h0)"
proof (induction hs)
  case Nil
  then show ?case by (auto intro!: settling_handlerI dest: settling_handlerD)
next
  case (Cons kh hs)
  obtain k h where kh: "kh = (k, h)" by (cases kh)
  show ?case
  proof (rule settling_handlerI)
    fix op w op' w' assume "strcmp_chain location (kh # hs) h0 op w = Inr (op', w')"
    then have "h op w = Inr (op', w') \<or> strcmp_chain location hs h0 op w = Inr (op', w')"
      by (auto simp: kh and_then_Inr_iff split: if_splits)
    with Cons show "settled w w'" by (auto simp: kh dest: settling_handlerD)
  qed
qed

lemmas static_pages = http_help_def http_favicon_def http_index_def http_get_atop_js_def http_get_atop_parse_js_def
  http_get_atop_compare_fc_js_def http_get_css_def http_get_template_header_def http_ping_def

lemma static_settles: "he_reg env = both_types \<Longrightarrow> settling_handler (http_answer env buf ct)"
  by (rule settling_handlerI) (rule answer_settles)

lemma request_settles:
  assumes "he_reg env = both_types"
  shows "settling_handler (http_process_request env req)"
proof (rule settling_handlerI)
  fix op w op' w' assume run: "http_process_request env req op w = Inr (op', w')"
  have 0: "settling_handler http_404_answer" by (rule settling_handlerI) (rule answer_404_settles)
  have 1: "settling_handler (http_index env)" using static_settles[OF assms] by (simp add: static_pages)
  have "\<forall>(k, h) \<in> set (routes env req). settling_handler h"
    using static_settles[OF assms] showsamp_settles[OF assms] template_settles[OF assms]
    by (auto simp: routes_def static_pages intro!: settling_handlerI intro: settling_handlerD)
  from strcmp_chain_settles[OF 0 this] 0 1 run show "settled w w'"
    by (auto simp: http_process_request_def and_then_Inr_iff dest: settling_handlerD split: if_splits)
qed

section \<open>Which handler answers\<close>

lemma streq_location: "NUL \<notin> set p \<Longrightarrow> NUL \<notin> set k \<Longrightarrow> c_streq (p @ NUL # zs) k = Inr (p = k)"
  using c_streq_terminated[of "p @ NUL # zs" k] by simp

lemma strcmp_chain_map_of:
  "NUL \<notin> set p \<Longrightarrow> \<forall>(k, h) \<in> set hs. NUL \<notin> set k \<Longrightarrow>
     strcmp_chain (p @ NUL # zs) hs h0 op w = (case map_of hs p of None \<Rightarrow> h0 op w | Some h \<Rightarrow> h op w)"
  by (induction hs) (auto simp: streq_location)

lemma get_location_path:
  assumes "NUL \<notin> set p" "CHR ''?'' \<notin> set p" "q = [] \<or> hd q = CHR ''?''" "NUL \<notin> set q" "length (p @ q) < URL_LEN"
  shows "get_location ((p @ q) @ NUL # zs) = Inr (p @ NUL # replicate (URL_LEN - length p - 1) NUL)"
proof -
  have r: "replicate (URL_LEN - length p) NUL = NUL # replicate (URL_LEN - length p - 1) NUL"
    using assms(5) by (cases "URL_LEN - length p") auto
  show ?thesis
  proof (cases q)
    case Nil
    with assms r show ?thesis
      by (simp add: get_location_def c_strchr_absent)
  next
    case (Cons c q')
    with assms(3) have c: "q = CHR ''?'' # q'" by simp
    with assms c_strchr_first[of "CHR ''?''" p "q' @ NUL # zs"] r show ?thesis
      by (simp add: get_location_def)
  qed
qed

text \<open>The table of the paths, in the order of the code.\<close>

lemma request_routed:
  assumes "NUL \<notin> set p" "CHR ''?'' \<notin> set p" "q = [] \<or> hd q = CHR ''?''" "NUL \<notin> set q" "length (p @ q) < URL_LEN"
  shows "http_process_request env ((p @ q) @ NUL # zs) op w =
    (if p = [] then http_index env op w
     else case map_of (routes env ((p @ q) @ NUL # zs)) p of None \<Rightarrow> http_404_answer op w | Some h \<Rightarrow> h op w)"
proof -
  have len: "c_strlen ((p @ q) @ NUL # zs) = Inr (length (p @ q))" using assms(1,4) c_strlen_app[of "p @ q" zs] by simp
  have keys: "\<forall>(k, h) \<in> set (routes env r). NUL \<notin> set k" for r by (simp add: routes_def)
  show ?thesis
    unfolding http_process_request_def len get_location_path[OF assms]
    using assms(1,5) strcmp_chain_map_of[OF assms(1) keys] by simp
qed

end
