(* ===== verification/JsonKeeps.thy ===== *)
theory JsonKeeps
  imports JsonOut
begin

text \<open>
  What every printer keeps, whatever it prints: when it returns, the output buffer satisfies its
  invariant and its encoding is as before. Unlike the lemmas of \<open>JsonProofs\<close> this asks nothing of the sample.
\<close>

section \<open>Parts of a line\<close>

definition out_kept :: "content_encoding \<Rightarrow> output_t \<Rightarrow> bool" where
  "out_kept e op \<longleftrightarrow> out_ok op \<and> out_encoding op = e"

lemma copy_in_keeps:
  assumes "copy_in mem off buf sz = Inr mem'" "None \<notin> set (take (nat off) mem)"
  shows "length mem' = length mem" "0 \<le> sz" "0 \<le> off" "off + sz \<le> int (length mem)"
    "None \<notin> set (take (nat (off + sz)) mem')"
proof -
  from assms(1) have c: "0 \<le> sz" "0 \<le> off" "nat sz \<le> length buf" "nat off + nat sz \<le> length mem"
    and m: "mem' = take (nat off) mem @ map Some (take (nat sz) buf) @ drop (nat off + nat sz) mem"
    by (auto simp: copy_in_def buf_write_def min_def split: if_splits)
  show "length mem' = length mem" "0 \<le> sz" "0 \<le> off" "off + sz \<le> int (length mem)" using c m by auto
  have "nat (off + sz) = nat off + nat sz" using c by linarith
  then have "take (nat (off + sz)) mem' = take (nat off) mem @ map Some (take (nat sz) buf)" using c m by simp
  with assms(2) show "None \<notin> set (take (nat (off + sz)) mem')" by auto
qed

lemma power_below: "(2::int) ^ 20 * 2 ^ k * 2 < 2 ^ 31 \<Longrightarrow> (2::int) ^ 20 * 2 ^ k * 2 \<le> 2 ^ 30"
proof -
  assume "(2::int) ^ 20 * 2 ^ k * 2 < 2 ^ 31"
  then have "(2::int) ^ (21 + k) < 2 ^ 31" by (simp add: power_add)
  then have "21 + k < 31" by (rule power_less_imp_less_exp[rotated]) simp
  then have "21 + k \<le> 30" by simp
  then have "(2::int) ^ (21 + k) \<le> 2 ^ 30" by (rule power_increasing) simp
  then show ?thesis by (simp add: power_add)
qed

lemma output_buf_keeps:
  assumes "out_ok op" "output_buf op bs sz = Inr op'"
  shows "out_ok op'"
proof -
  define op1 where "op1 = (case ob_buf op of
      None \<Rightarrow> op\<lparr>ob_size := int OUTBUF_DEF_SIZE, ob_buf := Some (zeroed OUTBUF_DEF_SIZE)\<rparr> | Some _ \<Rightarrow> op)"
  have ok1: "out_ok op1" and some: "ob_buf op1 \<noteq> None"
    using assms(1) by (auto simp: op1_def out_ok_def zeroed_def OUTBUF_DEF_SIZE_def intro: exI[of _ 0] split: option.splits)
  then obtain mem where "ob_buf op1 = Some mem" by blast
  with ok1 obtain k where mem: "ob_buf op1 = Some mem" "ob_size op1 = int (OUTBUF_DEF_SIZE * 2 ^ k)"
    "int (length mem) = ob_size op1" "0 \<le> ob_offset op1" "ob_offset op1 \<le> ob_size op1"
    "None \<notin> set (take (nat (ob_offset op1)) mem)" "out_type op1 = OUTPUT_BUF"
    by (auto simp: out_ok_def)
  define op2 where "op2 = (if ob_size op1 - ob_offset op1 < sz
     then op1\<lparr>ob_size := ob_size op1 * 2, ob_buf := Some (grow_to mem (ob_size op1 * 2))\<rparr> else op1)"
  have run: "\<exists>mem2 mem'. ob_buf op2 = Some mem2 \<and> copy_in mem2 (ob_offset op2) bs sz = Inr mem'
      \<and> op' = op2\<lparr>ob_buf := Some mem', ob_offset := ob_offset op2 + sz\<rparr>
      \<and> (ob_size op1 - ob_offset op1 < sz \<longrightarrow> ob_size op1 * 2 < 2 ^ 31)"
    using assms(2) mem(1) unfolding output_buf_def Let_def op1_def[symmetric]
    by (auto simp: op2_def and_then_Inr_iff split: if_splits)
  then obtain mem2 mem' where r: "ob_buf op2 = Some mem2" "copy_in mem2 (ob_offset op2) bs sz = Inr mem'"
    "op' = op2\<lparr>ob_buf := Some mem', ob_offset := ob_offset op2 + sz\<rparr>"
    "ob_size op1 - ob_offset op1 < sz \<Longrightarrow> ob_size op1 * 2 < 2 ^ 31" by blast
  have ok2: "out_ok op2"
  proof (cases "ob_size op1 - ob_offset op1 < sz")
    case True
    define sz2 where "sz2 = ob_size op1 * 2"
    have 1: "sz2 = int (OUTBUF_DEF_SIZE * 2 ^ Suc k)" using mem(2) by (simp add: sz2_def)
    have 2: "sz2 \<le> 2 ^ 30" using r(4)[OF True] power_below[of k] mem(2) by (simp add: sz2_def OUTBUF_DEF_SIZE_def)
    have 3: "take (nat (ob_offset op1)) (grow_to mem sz2) = take (nat (ob_offset op1)) mem"
      using mem(3-5) by (simp add: grow_to_def sz2_def)
    have 4: "int (length (grow_to mem sz2)) = sz2" using mem(2,3) by (simp add: grow_to_def uninit_def sz2_def)
    have 5: "op2 = op1\<lparr>ob_size := sz2, ob_buf := Some (grow_to mem sz2)\<rparr>" using True by (simp add: op2_def sz2_def)
    have 6: "ob_offset op1 \<le> sz2" using mem(4,5) by (simp add: sz2_def)
    have "\<exists>k. sz2 = int (OUTBUF_DEF_SIZE * 2 ^ k)" using 1 by blast
    then show ?thesis using 2 3 4 5 6 mem(4,6,7) by (simp add: out_ok_def)
  next
    case False
    with ok1 show ?thesis by (simp add: op2_def)
  qed
  have m2: "None \<notin> set (take (nat (ob_offset op2)) mem2)" using ok2 r(1) by (simp add: out_ok_def)
  note c = copy_in_keeps[OF r(2) m2]
  show ?thesis using ok2 r(1,3) c by (auto simp: out_ok_def)
qed

named_theorems keeps \<open>rules for what keeps the output buffer\<close>

lemma samp_keeps [keeps]: "out_kept e op \<Longrightarrow> yields (out_kept e) (output_samp op bs sz)"
proof -
  assume k: "out_kept e op"
  have "out_kept e op'" if run: "output_samp op bs sz = Inr op'" for op'
  proof -
    have "output_buf op bs sz = Inr op'" using k run by (simp add: out_kept_def out_ok_def output_samp_def)
    from output_buf_keeps[OF _ this] output_samp_frame[OF run] k show ?thesis by (simp add: out_kept_def)
  qed
  then show ?thesis by (simp add: yields_def)
qed

lemma put_line_keeps [keeps]: "out_kept e op \<Longrightarrow> yields (out_kept e) (put_line op fmt as)"
  unfolding put_line_def by (rule yields_splits samp_keeps | assumption)+

lemma put_lit_keeps [keeps]: "out_kept e op \<Longrightarrow> yields (out_kept e) (put_lit op s)"
  unfolding put_lit_def by (rule samp_keeps)

lemma put_br_keeps [keeps]: "out_kept e op \<Longrightarrow> yields (out_kept e) (put_br op hp)"
  unfolding put_br_def by (rule yields_splits samp_keeps | assumption)+

lemma comma_keeps [keeps]: "out_kept e op \<Longrightarrow> yields (out_kept e) (comma i op)"
  unfolding comma_def by (simp add: put_lit_keeps yields_Inr)

section \<open>Loops\<close>

lemma idx_loop_keeps [keeps]:
  "(\<And>i op. out_kept e op \<Longrightarrow> yields (out_kept e) (body i op)) \<Longrightarrow> out_kept e op \<Longrightarrow>
     yields (out_kept e) (idx_loop body i k op)"
proof (induction body i k op rule: idx_loop.induct)
  case (2 body i k op)
  then show ?case
    unfolding idx_loop.simps by (auto intro!: yields_seq[OF comma_keeps] yields_seq[OF 2(2)])
qed (simp add: yields_Inr)

lemma name_loop_keeps [keeps]:
  "(\<And>x op. out_kept e op \<Longrightarrow> yields (out_kept e) (body x op)) \<Longrightarrow> out_kept e op \<Longrightarrow>
     yields (out_kept e) (name_loop name body i xs op)"
proof (induction name body i xs op rule: name_loop.induct)
  case (2 name body i x xs op)
  show ?case
  proof (cases "at (name x) 0")
    case (Inr c)
    with 2 show ?thesis
      by (auto intro!: yields_Inr yields_seq[OF comma_keeps] yields_seq[OF 2(2)])
  qed (simp add: yields_Inl)
qed (simp add: yields_Inl)

lemma task_loop_keeps [keeps]:
  "(\<And>p op. out_kept e op \<Longrightarrow> yields (out_kept e) (body p op)) \<Longrightarrow> out_kept e op \<Longrightarrow>
     yields (out_kept e) (task_loop body i k ps op)"
proof (induction body i k ps op rule: task_loop.induct)
  case (3 body i k p ps op)
  then show ?case
    by (auto intro!: yields_seq[OF comma_keeps] yields_seq[OF 3(3)])
qed (simp_all add: yields_Inr yields_Inl)

lemma array_keeps [keeps]:
  "(\<And>op. out_kept e op \<Longrightarrow> yields (out_kept e) (loop op)) \<Longrightarrow> out_kept e op \<Longrightarrow>
     yields (out_kept e) (array_section hp loop op)"
  unfolding array_section_def by (intro yields_seq[OF put_br_keeps] yields_seq[of "out_kept e"] put_lit_keeps) auto

section \<open>Printers\<close>

definition keeping :: "prifunc \<Rightarrow> bool" where
  "keeping f \<longleftrightarrow> (\<forall>e env flags hp ss ps n op. out_kept e op \<longrightarrow>
     yields (\<lambda>(ss', op'). out_kept e op') (f env flags hp ss ps n op))"

lemma keeping_leaving:
  "(\<And>e env flags hp ss ps n op. out_kept e op \<Longrightarrow> yields (out_kept e) (f env flags hp ss ps n op)) \<Longrightarrow> keeping (leaving f)"
  unfolding keeping_def leaving_def by (auto intro!: yields_seq[of "out_kept e" for e] yields_Inr)

lemma line_printers_keep:
  "keeping (leaving json_print_CPL)" "keeping (leaving json_print_MEM)" "keeping (leaving json_print_SWP)"
  "keeping (leaving json_print_PAG)" "keeping (leaving json_print_NFC)" "keeping (leaving json_print_NFS)"
  by (intro keeping_leaving; unfold json_print_CPL_def json_print_MEM_def json_print_SWP_def json_print_PAG_def
      json_print_NFC_def json_print_NFS_def; erule put_line_keeps)+

lemma keeping_CPU: "keeping json_print_CPU"
proof -
  have "yields (\<lambda>(ss', op'). out_kept e op') (json_print_CPU env flags hp ss ps n op)" if "out_kept e op" for e env flags hp ss ps n op
    unfolding json_print_CPU_def Let_def
    by (rule yields_seq[OF put_line_keeps[OF that]] yields_Inr | rule yields_splits | simp only: prod.case)+
  then show ?thesis by (simp add: keeping_def)
qed

text \<open>The rules run a printer from its first operation to its last.\<close>

lemmas keeps_run = array_keeps idx_loop_keeps name_loop_keeps task_loop_keeps put_line_keeps yields_Inr

lemma keeping_cpu: "keeping (leaving json_print_cpu)"
  by (rule keeping_leaving) (unfold json_print_cpu_def Let_def, (rule keeps_run yields_splits | assumption)+)

lemma keeping_GPU: "keeping (leaving json_print_GPU)"
  by (rule keeping_leaving) (unfold json_print_GPU_def Let_def, (rule keeps_run yields_splits | assumption)+)

lemma keeping_PSI: "keeping (leaving json_print_PSI)"
  by (rule keeping_leaving) (unfold json_print_PSI_def Let_def, (rule keeps_run yields_splits | assumption)+)

lemma keeping_LVM: "keeping (leaving json_print_LVM)"
  by (rule keeping_leaving) (unfold json_print_LVM_def Let_def, (rule keeps_run yields_splits | assumption)+)

lemma keeping_MDD: "keeping (leaving json_print_MDD)"
  by (rule keeping_leaving) (unfold json_print_MDD_def Let_def, (rule keeps_run yields_splits | assumption)+)

lemma keeping_DSK: "keeping (leaving json_print_DSK)"
  by (rule keeping_leaving) (unfold json_print_DSK_def Let_def, (rule keeps_run yields_splits | assumption)+)

lemma keeping_NFM: "keeping (leaving json_print_NFM)"
  by (rule keeping_leaving) (unfold json_print_NFM_def Let_def, (rule keeps_run yields_splits | assumption)+)

lemma keeping_IFB: "keeping (leaving json_print_IFB)"
  by (rule keeping_leaving) (unfold json_print_IFB_def Let_def, (rule keeps_run yields_splits | assumption)+)

lemma keeping_NUM: "keeping (leaving json_print_NUM)"
  by (rule keeping_leaving) (unfold json_print_NUM_def Let_def, (rule keeps_run yields_splits | assumption)+)

lemma keeping_NUC: "keeping (leaving json_print_NUC)"
  by (rule keeping_leaving) (unfold json_print_NUC_def Let_def, (rule keeps_run yields_splits | assumption)+)

lemma keeping_LLC: "keeping (leaving json_print_LLC)"
  by (rule keeping_leaving) (unfold json_print_LLC_def Let_def, (rule keeps_run yields_splits | assumption)+)

lemma keeping_PRG: "keeping (leaving json_print_PRG)"
  by (rule keeping_leaving) (unfold json_print_PRG_def Let_def, (rule keeps_run yields_splits | assumption)+)

lemma keeping_PRC: "keeping (leaving json_print_PRC)"
  by (rule keeping_leaving) (unfold json_print_PRC_def Let_def, (rule keeps_run yields_splits | assumption)+)

lemma keeping_PRM: "keeping (leaving json_print_PRM)"
  by (rule keeping_leaving) (unfold json_print_PRM_def Let_def, (rule keeps_run yields_splits | assumption)+)

lemma keeping_PRD: "keeping (leaving json_print_PRD)"
  by (rule keeping_leaving) (unfold json_print_PRD_def Let_def, (rule keeps_run yields_splits | assumption)+)

lemma keeping_PRN: "keeping (leaving json_print_PRN)"
  by (rule keeping_leaving) (unfold json_print_PRN_def Let_def, (rule keeps_run yields_splits | assumption)+)

lemma keeping_PRE: "keeping (leaving json_print_PRE)"
  by (rule keeping_leaving) (unfold json_print_PRE_def Let_def, (rule keeps_run yields_splits | assumption)+)

lemma keeping_NET: "keeping (leaving json_print_NET)"
proof (rule keeping_leaving)
  fix e env flags hp ss ps n op assume "out_kept e op"
  then show "yields (out_kept e) (json_print_NET env flags hp ss ps n op)"
    unfolding json_print_NET_def
    by (intro yields_seq[OF put_line_keeps]) (assumption | rule keeps_run)+
qed

lemmas printers_keep = line_printers_keep keeping_CPU keeping_NET
  keeping_cpu keeping_GPU keeping_PSI keeping_LVM keeping_MDD keeping_DSK keeping_NFM keeping_IFB keeping_NUM keeping_NUC keeping_LLC keeping_PRG keeping_PRC keeping_PRM keeping_PRD keeping_PRN keeping_PRE

lemma labels_keep: "l \<in> set labeldefs \<Longrightarrow> keeping (lab_prifunc l)"
  using printers_keep
  by (auto simp: labeldefs_def)

lemma print_labels_keeps:
  "\<forall>l \<in> set tbl. keeping (lab_prifunc l) \<Longrightarrow> out_kept e op \<Longrightarrow>
     yields (out_kept e) (print_labels env flags tbl ss ps n op)"
proof (induction env flags tbl ss ps n op rule: print_labels.induct)
  case (2 env flags l ls ss ps n op)
  show ?case
  proof (cases "lab_valid l")
    case False
    with 2 show ?thesis by simp
  next
    case True
    have valid: "\<not> \<not> lab_valid l" and tl: "\<forall>l \<in> set ls. keeping (lab_prifunc l)" using True 2(3) by simp_all
    show ?thesis
    proof (cases "c_snprintf 256 fmt_header [A_str (lab_label l @ [NUL])]")
      case (Inl f)
      then show ?thesis by (simp only: print_labels.simps valid if_False and_then_simps yields_Inl)
    next
      case (Inr x)
      obtain header u where x: "x = (header, u)" by (cases x)
      have keeps: "yields (\<lambda>(ss', op'). out_kept e op') (lab_prifunc l env flags header ss ps n op)"
        using 2(3,4) by (auto simp: keeping_def)
      show ?thesis
      proof (cases "lab_prifunc l env flags header ss ps n op")
        case f: (Inl f)
        then show ?thesis
          by (simp only: print_labels.simps valid if_False Inr x prod.case and_then_simps yields_Inl)
      next
        case r: (Inr r)
        obtain ss' op' where ro: "r = (ss', op')" by (cases r)
        from yieldsD[OF keeps r] ro have "out_kept e op'" by simp
        from 2(2)[OF valid Inr x[symmetric] r ro[symmetric] tl this] show ?thesis
          by (simp only: print_labels.simps valid if_False Inr x r ro prod.case and_then_simps)
      qed
    qed
  qed
qed (simp add: yields_Inr)

lemma put_general_keeps: "out_kept e op \<Longrightarrow> yields (out_kept e) (put_general env curtime numsecs op)"
  unfolding put_general_def
  by (rule yields_splits(1), rule yields_splits(4), erule samp_keeps)

lemma answer_keeps:
  assumes "\<forall>l \<in> set tbl. keeping (lab_prifunc l)" "out_kept e op"
  shows "yields (out_kept e) (answer env flags curtime numsecs tbl ss ps n op)"
  unfolding answer_def
proof (rule yields_seq[OF put_general_keeps[OF assms(2)]])
  fix op1 assume "out_kept e op1"
  show "yields (out_kept e) (and_then (print_labels env flags tbl ss ps n op1) (\<lambda>op. put_lit op ''}\<newline>''))"
    by (rule yields_seq[OF print_labels_keeps[OF assms(1) \<open>out_kept e op1\<close>]]) (rule put_lit_keeps)
qed

section \<open>The whole of jsonout\<close>

text \<open>The table of labels keeps its printers.\<close>

lemma mark_label_printers: "mark_label tbl l = Some tbl' \<Longrightarrow> map lab_prifunc tbl' = map lab_prifunc tbl"
  by (induction tbl arbitrary: tbl') (auto split: if_splits)

lemma put_unsupported_keeps: "out_kept e op \<Longrightarrow> yields (out_kept e) (put_unsupported op pd)"
  unfolding put_unsupported_def by (rule yields_splits samp_keeps | assumption)+

definition table_kept :: "content_encoding \<Rightarrow> labeldef list \<Rightarrow> int \<times> labeldef list \<times> output_t \<Rightarrow> bool" where
  "table_kept e tbl r \<longleftrightarrow> out_kept e (snd (snd r)) \<and> map lab_prifunc (fst (snd r)) = map lab_prifunc tbl"

lemma table_keeping:
  assumes "map lab_prifunc tbl = map lab_prifunc labeldefs"
  shows "\<forall>l \<in> set tbl. keeping (lab_prifunc l)"
proof -
  from assms have "lab_prifunc ` set tbl = lab_prifunc ` set labeldefs" by (metis list.set_map)
  then show ?thesis using labels_keep by (metis (no_types, lifting) imageE imageI)
qed

lemma jsondef_loop_keeps: "out_kept e op \<Longrightarrow> yields (table_kept e tbl) (jsondef_loop tbl pd op)"
proof (induction tbl pd op rule: jsondef_loop.induct)
  case (1 tbl pd op)
  let ?tok = "takeWhile (\<lambda>c. c \<noteq> CHR '','') pd"
  show ?case
  proof (cases "pd = [] \<or> mark_label tbl ?tok = None")
    case True
    then show ?thesis
      using 1(2) put_unsupported_keeps[OF 1(2), of ?tok]
      by (subst jsondef_loop.simps)
        (auto simp: Let_def table_kept_def comp_def yields_def and_then_Inr_iff)
  next
    case False
    then obtain tbl1 where m: "pd \<noteq> []" "mark_label tbl ?tok = Some tbl1" by auto
    from 1(1)[OF m(1) refl refl m(2) 1(2)] mark_label_printers[OF m(2)] m show ?thesis
      by (subst jsondef_loop.simps) (simp add: Let_def table_kept_def[abs_def])
  qed
qed

lemma jsondef_keeps: "out_kept e op \<Longrightarrow> yields (table_kept e tbl) (jsondef tbl pd op)"
proof -
  assume k: "out_kept e op"
  then have "yields (table_kept e tbl) (and_then (put_lit op msg_no_labels) (\<lambda>op. Inr (- int EINVAL, tbl, op)))"
    by (intro yields_seq[OF put_lit_keeps] yields_Inr) (auto simp: table_kept_def)
  with jsondef_loop_keeps[OF k] show ?thesis
    unfolding jsondef_def by (intro yields_splits) auto
qed

text \<open>The buffer that is handed to the hook, and that is empty afterwards.\<close>

definition out_idle :: "output_t \<Rightarrow> bool" where
  "out_idle op \<longleftrightarrow> out_ok op \<and> out_content op = []"

lemma samp_done_idle:
  "out_ok op \<Longrightarrow> yields (\<lambda>(op', c'). out_idle op' \<and> hook op c = Inr c') (output_samp_done (Some hook) op c)"
proof (cases "hook op c")
  case (Inr c')
  assume "out_ok op"
  from samp_done_resets[of op hook, OF this Inr] Inr show ?thesis by (auto simp: yields_def out_idle_def)
qed (simp add: output_samp_done_def yields_def)

lemma jsonout_idle:
  assumes "out_kept e op"
  shows "yields (\<lambda>(r, op', c'). out_idle op' \<and> (\<exists>op1. out_kept e op1 \<and> hook op1 c = Inr c'))
    (jsonout env (Some hook) flags pd curtime numsecs dev ss op c)"
proof -
  let ?Q = "\<lambda>(r :: int, op', c'). out_idle op' \<and> (\<exists>op1. out_kept e op1 \<and> hook op1 c = Inr c')"
  have finish: "yields ?Q (and_then (output_samp_done (Some hook) op1 c) (\<lambda>(op, conn). Inr (r, op, conn)))"
    if k: "out_kept e op1" for r op1
  proof -
    from k have "out_ok op1" by (simp add: out_kept_def)
    from samp_done_idle[OF this] k show ?thesis by (fastforce simp: yields_def and_then_Inr_iff)
  qed
  show ?thesis
    unfolding jsonout_def
  proof (rule yields_seq[OF jsondef_keeps[OF assms]])
    fix x assume x: "table_kept e labeldefs x"
    obtain r tbl op1 where r: "x = (r, tbl, op1)" by (cases x)
    from x r have k: "out_kept e op1" and "map lab_prifunc tbl = map lab_prifunc labeldefs"
      by (simp_all add: table_kept_def)
    from this(2) have tbl: "\<forall>l \<in> set tbl. keeping (lab_prifunc l)" by (rule table_keeping)
    have main: "yields ?Q (and_then (put_general env curtime numsecs op1) (\<lambda>op.
        and_then (sanitize_tasks env (ntaskall dev) (taskall dev)) (\<lambda>ps.
        and_then (print_labels env flags tbl ss ps (ntaskall dev) op) (\<lambda>op.
        and_then (put_lit op ''}\<newline>'') (\<lambda>op.
        and_then (output_samp_done (Some hook) op c) (\<lambda>(op, conn). Inr (0, op, conn)))))))"
    proof (rule yields_seq[OF put_general_keeps[OF k]])
      fix op2 assume k2: "out_kept e op2"
      show "yields ?Q (and_then (sanitize_tasks env (ntaskall dev) (taskall dev)) (\<lambda>ps.
        and_then (print_labels env flags tbl ss ps (ntaskall dev) op2) (\<lambda>op.
        and_then (put_lit op ''}\<newline>'') (\<lambda>op.
        and_then (output_samp_done (Some hook) op c) (\<lambda>(op, conn). Inr (0, op, conn))))))"
      proof (rule yields_splits(1))
        fix ps
        show "yields ?Q (and_then (print_labels env flags tbl ss ps (ntaskall dev) op2) (\<lambda>op.
          and_then (put_lit op ''}\<newline>'') (\<lambda>op.
          and_then (output_samp_done (Some hook) op c) (\<lambda>(op, conn). Inr (0, op, conn)))))"
          by (rule yields_seq[OF print_labels_keeps[OF tbl k2]]) (rule yields_seq[OF put_lit_keeps], assumption, rule finish)
      qed
    qed
    with finish[OF k] show "yields ?Q (case x of (ret, tbl, op) \<Rightarrow>
        if ret \<noteq> 0 then and_then (output_samp_done (Some hook) op c) (\<lambda>(op, conn). Inr (ret, op, conn))
        else and_then (put_general env curtime numsecs op) (\<lambda>op.
          and_then (sanitize_tasks env (ntaskall dev) (taskall dev)) (\<lambda>ps.
          and_then (print_labels env flags tbl ss ps (ntaskall dev) op) (\<lambda>op.
          and_then (put_lit op ''}\<newline>'') (\<lambda>op.
          and_then (output_samp_done (Some hook) op c) (\<lambda>(op, conn). Inr (0, op, conn)))))))"
      by (simp only: r prod.case split: if_split) blast
  qed
qed

end
