(* ===== verification/HttpServe.thy ===== *)
theory HttpServe
  imports HttpRequest JsonKeeps
begin

text \<open>
  What the handlers of \<open>HttpRequest\<close> promise: which handler answers a request, that the output buffer is empty
  again after every request, and the answer to a request for a sample from the bytes of the raw log to the
  bytes that are sent.
\<close>

section \<open>The output buffer after a request\<close>

lemma out_idle_encoding [simp]: "out_idle (op\<lparr>out_encoding := e\<rparr>) \<longleftrightarrow> out_idle op"
  by (cases "ob_buf op") (simp_all add: out_idle_def out_ok_def out_content_def)

lemma out_idle_kept: "out_idle op \<Longrightarrow> out_kept (out_encoding op) op"
  by (simp add: out_idle_def out_kept_def)

definition keeps_idle :: "handler \<Rightarrow> bool" where
  "keeps_idle h \<longleftrightarrow> (\<forall>op w. out_idle op \<longrightarrow> yields (\<lambda>(op', w'). out_idle op') (h op w))"

lemma keeps_idleI: "(\<And>op w. out_idle op \<Longrightarrow> yields (\<lambda>(op', w'). out_idle op') (h op w)) \<Longrightarrow> keeps_idle h"
  by (simp add: keeps_idle_def)

lemma keeps_idleD: "keeps_idle h \<Longrightarrow> out_idle op \<Longrightarrow> yields (\<lambda>(op', w'). out_idle op') (h op w)"
  unfolding keeps_idle_def by blast

lemma answer_idle: "out_idle op \<Longrightarrow> yields (\<lambda>(op', w'). out_idle op') (http_answer env buf ct op w)"
  by (auto simp: http_answer_def yields_def and_then_Inr_iff)

lemma answer_404_idle: "out_idle op \<Longrightarrow> yields (\<lambda>(op', w'). out_idle op') (http_404_answer op w)"
  by (auto simp: http_404_answer_def yields_def and_then_Inr_iff)

lemma get_record_idle:
  assumes "out_idle op"
  shows "yields (\<lambda>(r, op', w'). out_idle op') (rawlog_get_record abi env (Some hook) fs caches ts ls op w)"
  unfolding yields_def
proof (intro allI impI)
  fix x assume run: "rawlog_get_record abi env (Some hook) fs caches ts ls op w = Inr x"
  obtain r op' w' where x: "x = (r, op', w')" by (cases x)
  from get_record_cases[OF run[unfolded x]] show "case x of (r, op', w') \<Rightarrow> out_idle op'"
  proof (elim disjE conjE exE)
    fix flags t n dev ss r'
    assume "jsonout env (Some hook) flags ls t n dev ss op w = Inr (r', op', w')"
    from yieldsD[OF jsonout_idle[OF out_idle_kept[OF assms]] this] show ?thesis by (simp add: x)
  qed (use assms x in simp)
qed

lemma showsamp_idle: "keeps_idle (http_showsamp env req)"
proof (rule keeps_idleI)
  fix op w assume i: "out_idle op"
  have j: "out_idle (op\<lparr>out_encoding := e\<rparr>)" for e using i by simp
  have tail: "yields (\<lambda>(op', w'). out_idle op')
      (and_then (rawlog_get_record (he_abi env) (he_jenv env) hook (he_fs env) (he_caches env) t ls (op\<lparr>out_encoding := e\<rparr>) w)
        (\<lambda>(ret, op, w). if ret < 0 then http_answer env err_sample Ct_html op w else Inr (op, w)))"
    if h: "hook = Some (http_show_samp_done (he_reg env) (he_compress env))" for hook t ls e
    unfolding h
    by (rule yields_seq[OF get_record_idle[OF j]]) (auto intro: answer_idle yields_Inr)
  show "yields (\<lambda>(op', w'). out_idle op') (http_showsamp env req op w)"
    unfolding http_showsamp_def Let_def
    by (rule answer_idle[OF i] answer_idle[OF j] tail[OF refl] | rule yields_splits)+
qed

lemma template_idle: "keeps_idle (http_get_template env req)"
proof (rule keeps_idleI)
  fix op and w :: wire assume i: "out_idle op"
  then have keep: "yields (\<lambda>(op', w'). out_idle op') (Inr (op, w))" by (simp add: yields_def)
  show "yields (\<lambda>(op', w'). out_idle op') (http_get_template env req op w)"
    unfolding http_get_template_def
    by (rule answer_idle[OF i] answer_404_idle[OF i] keep | rule yields_splits)+
qed

lemma strcmp_chain_idle:
  "keeps_idle h0 \<Longrightarrow> \<forall>(k, h) \<in> set hs. keeps_idle h \<Longrightarrow> keeps_idle (strcmp_chain location hs h0)"
proof (induction hs)
  case Nil
  then show ?case by (auto intro!: keeps_idleI dest: keeps_idleD)
next
  case (Cons kh hs)
  obtain k h where kh: "kh = (k, h)" by (cases kh)
  from Cons have "keeps_idle h" "keeps_idle (strcmp_chain location hs h0)" by (auto simp: kh)
  then show ?case by (auto simp: kh intro!: keeps_idleI yields_splits dest: keeps_idleD)
qed

lemma request_idle: "keeps_idle (http_process_request env req)"
proof (rule keeps_idleI)
  fix op w assume i: "out_idle op"
  have 0: "keeps_idle http_404_answer" "keeps_idle (http_answer env b ct)" for b ct
    by (auto intro: keeps_idleI answer_idle answer_404_idle)
  have "\<forall>(k, h) \<in> set (routes env req). keeps_idle h"
    using 0 showsamp_idle template_idle by (auto simp: routes_def static_pages)
  from strcmp_chain_idle[OF 0(1) this] 0 have chain: "keeps_idle (strcmp_chain l (routes env req) http_404_answer)" for l by blast
  have idx: "keeps_idle (http_index env)" using 0 by (simp add: static_pages)
  show "yields (\<lambda>(op', w'). out_idle op') (http_process_request env req op w)"
    unfolding http_process_request_def
    by (rule answer_404_idle[OF i] keeps_idleD[OF chain i] keeps_idleD[OF idx i] | rule yields_splits)+
qed

section \<open>A request for a sample\<close>

text \<open>
  What the server needs for the record that it picks for the time \<open>ts\<close>: it is complete in its file, its two
  parts can be uncompressed to a sample and \<open>tasks\<close> that are well formed, and the numbers of processes in its header are
  those of the tasks.
\<close>

record stored =
  sr_cache :: cache_t
  sr_file :: rfile
  sr_pre :: bytes
  sr_record :: bytes
  sr_sstat :: bytes
  sr_tstat :: bytes
  sr_post :: bytes
  sr_sample :: bytes
  sr_tasks :: bytes

definition stored_rr :: "http_env \<Rightarrow> stored \<Rightarrow> rawrecord" where
  "stored_rr env r = dec_record (he_abi env) (sr_record r)"

definition stored_tasks :: "http_env \<Rightarrow> stored \<Rightarrow> tstat list" where
  "stored_tasks env r = tasks_of (he_abi env) (unat (rr_ndeviat (stored_rr env r))) (sr_tasks r)"

definition stored_sample :: "http_env \<Rightarrow> stored \<Rightarrow> sstat" where
  "stored_sample env r = dec_sstat (he_abi env) (take (sz_sstat (he_abi env)) (sr_sample r))"

definition is_stored :: "http_env \<Rightarrow> time_t \<Rightarrow> stored \<Rightarrow> bool" where
  "is_stored env ts r \<longleftrightarrow>
     (let abi = he_abi env; rr = stored_rr env r; n = unat (rr_ndeviat rr)
      in pick_record ts (he_caches env) = Inr (Some (sr_cache r, of_nat (length (sr_pre r))))
       \<and> he_fs env (cache_name (sr_cache r)) = Inr (sr_file r) \<and> file_ok (sr_file r)
       \<and> f_data (sr_file r) = sr_pre r @ sr_record r @ sr_sstat r @ sr_tstat r @ sr_post r
       \<and> length (sr_pre r) < 2 ^ 31
       \<and> length (sr_record r) = sz_rawrecord abi
       \<and> unat (rr_scomplen rr) = length (sr_sstat r) \<and> unat (rr_pcomplen rr) = length (sr_tstat r)
       \<and> uncompressed_to abi (sz_sstat abi) (sr_sstat r) (sr_sample r)
       \<and> uncompressed_to abi (sz_tstat abi * n) (sr_tstat r) (sr_tasks r) \<and> sz_tstat abi * n < 2 ^ 64
       \<and> length (positions is_process 0 (stored_tasks env r)) \<le> unat (rr_totproc rr) \<and> unat (rr_totproc rr) < 2 ^ 61
       \<and> length (positions is_active_process 0 (stored_tasks env r)) \<le> unat (rr_nactproc rr) \<and> unat (rr_nactproc rr) < 2 ^ 61
       \<and> sstat_ok (he_jenv env) (stored_sample env r)
       \<and> dev_ok (he_jenv env) (devtstat_of rr (stored_tasks env r)))"

text \<open>What holds of the machine and of the server, whatever is asked.\<close>

definition env_ok :: "http_env \<Rightarrow> bool" where
  "env_ok env \<longleftrightarrow> he_reg env = both_types \<and> (\<forall>n. malloc_ok (he_abi env) n) \<and> sz_tstat (he_abi env) < 2 ^ 64
     \<and> str_ok (nodename (he_jenv env)) \<and> length (cstr (nodename (he_jenv env))) \<le> 64"

lemma get_record_stored:
  assumes "env_ok env" "is_stored env ts r"
  shows "rawlog_get_record (he_abi env) (he_jenv env) hook (he_fs env) (he_caches env) ts labels op conn
    = and_then (jsonout (he_jenv env) hook
        (rawlog_record_flags (aflags (he_jenv env)) (cache_flags (sr_cache r)) (rr_flags (stored_rr env r)))
        labels (of_int (rr_curtime (stored_rr env r))) (rr_interval (stored_rr env r))
        (devtstat_of (stored_rr env r) (stored_tasks env r)) (stored_sample env r) op conn)
      (\<lambda>(_, op, conn). Inr (0, op, conn))"
  unfolding stored_sample_def
  by (rule get_record_run[where pre = "sr_pre r" and rb = "sr_record r" and sc = "sr_sstat r" and pc = "sr_tstat r"
        and post = "sr_post r" and tb = "sr_tasks r" and f = "sr_file r"])
    (use assms in \<open>simp_all add: env_ok_def is_stored_def stored_rr_def stored_tasks_def Let_def\<close>)

lemma samp_done_none:
  assumes "out_ok op" "out_encoding op = Enc_none" "willing w"
  shows "\<exists>op' w'. output_samp_done (Some (http_show_samp_done both_types zc)) op w = Inr (op', w')
    \<and> out_idle op' \<and> answered w (answer_text Enc_none Ct_html (out_content op)) w'"
proof -
  have "int (length (out_content op)) \<le> 2 ^ 30"
    using assms(1) by (auto simp: length_out_content out_ok_def split: option.splits)
  then have len: "length (out_content op) < 2 ^ 31" by simp
  from response_answered[OF assms(3) len] obtain w' where
    w': "http_response_200 both_types w (out_content op) (length (out_content op)) Enc_none Ct_html = Inr w'"
      "answered w (answer_text Enc_none Ct_html (out_content op)) w'" by blast
  then have "http_show_samp_done both_types zc op w = Inr w'"
    using ob_data_ok[OF assms(1)] assms(2) by (simp add: http_show_samp_done_def)
  from samp_done_resets[of op "http_show_samp_done both_types zc", OF assms(1) this] w'(2) show ?thesis
    unfolding out_idle_def by blast
qed

lemma stored_answered:
  assumes "env_ok env" "is_stored env ts r" "out_idle op" "out_encoding op = Enc_none" "willing w"
    and "set ls \<subseteq> label_names"
  shows "\<exists>op' w' body. rawlog_get_record (he_abi env) (he_jenv env) (Some (http_show_samp_done both_types zc))
      (he_fs env) (he_caches env) ts (label_list ls @ NUL # zs) op w = Inr (0, op', w')
    \<and> out_idle op' \<and> json_valid body \<and> answered w (answer_text Enc_none Ct_html body) w'"
proof -
  let ?rr = "stored_rr env r" and ?env = "he_jenv env"
  let ?dev = "devtstat_of ?rr (stored_tasks env r)" and ?pd = "label_list ls @ NUL # zs"
  let ?hook = "Some (http_show_samp_done both_types zc)"
  let ?flags = "rawlog_record_flags (aflags ?env) (cache_flags (sr_cache r)) (rr_flags ?rr)"
  have idle: "out_ok op" "out_content op = []" using assms(3) by (simp_all add: out_idle_def)
  have jd: "jsondef labeldefs ?pd op = Inr (0, select (set ls) labeldefs, op)" by (rule jsondef_known[OF assms(6)])
  have env: "str_ok (nodename ?env)" "length (cstr (nodename ?env)) \<le> 64" using assms(1) by (simp_all add: env_ok_def)
  have ok: "sstat_ok ?env (stored_sample env r)" "dev_ok ?env ?dev" using assms(2) by (simp_all add: is_stored_def Let_def)
  from jsonout_value[OF idle jd env ok, of ?flags "of_int (rr_curtime ?rr)" "rr_interval ?rr" ?hook w] obtain op1 qs where
    v: "out_ok op1" "json_valid (out_content op1)"
      "answer ?env ?flags (of_int (rr_curtime ?rr)) (rr_interval ?rr) (select (set ls) labeldefs) (stored_sample env r) qs (ntaskall ?dev) op = Inr op1"
    and run: "jsonout ?env ?hook ?flags ?pd (of_int (rr_curtime ?rr)) (rr_interval ?rr) ?dev (stored_sample env r) op w
      = and_then (output_samp_done ?hook op1 w) (\<lambda>(op, conn). Inr (0, op, conn))" by blast
  have "table_kept (out_encoding op) labeldefs (0, select (set ls) labeldefs, op)"
    by (rule yieldsD[OF jsondef_keeps[OF out_idle_kept[OF assms(3)]] jd])
  then have "\<forall>l \<in> set (select (set ls) labeldefs). keeping (lab_prifunc l)"
    by (intro table_keeping) (simp add: table_kept_def)
  from yieldsD[OF answer_keeps[OF this out_idle_kept[OF assms(3)]] v(3)] assms(4)
  have "out_encoding op1 = Enc_none" by (simp add: out_kept_def)
  from samp_done_none[OF v(1) this assms(5), of zc] obtain op2 w' where
    "output_samp_done ?hook op1 w = Inr (op2, w')" "out_idle op2"
    "answered w (answer_text Enc_none Ct_html (out_content op1)) w'" by blast
  with get_record_stored[OF assms(1,2), of ?hook ?pd op w] run v(2) show ?thesis by auto
qed

lemma label_list_no_percent: "set ls \<subseteq> label_names \<Longrightarrow> CHR ''%'' \<notin> set (label_list ls)"
proof
  assume ls: "set ls \<subseteq> label_names" and "CHR ''%'' \<in> set (label_list ls)"
  then obtain l where "l \<in> label_names" "CHR ''%'' \<in> set l" by (auto dest!: label_list_chars)
  then show False by (auto simp: label_names_def labeldefs_def)
qed

lemma encoding_none:
  assumes "query_has req ''encoding'' ''none''" "NUL \<notin> set req"
  shows "showsamp_encoding (req @ NUL # zs) = Inr (Some Enc_none)"
proof -
  have "length (uninit 16) = 16" by (simp add: uninit_def)
  from http_arg_str_stores[OF assms _ this, of zs] show ?thesis by (auto simp: showsamp_encoding_def)
qed

lemma showsamp_answers:
  assumes "env_ok env" "is_stored env ts r" "out_idle op" "willing w" "set ls \<subseteq> label_names"
    and "NUL \<notin> set req" "query_has req ''timestamp'' (dec_int ts)" "- (2 ^ 63) \<le> ts" "ts < 2 ^ 63"
    and "query_has req ''lables'' (percent_encode (label_list ls))" "length (percent_encode (label_list ls)) \<le> 1022"
    and "query_has req ''encoding'' ''none''"
  shows "\<exists>op' w' body. http_showsamp env (req @ NUL # zs) op w = Inr (op', w')
    \<and> out_idle op' \<and> json_valid body \<and> answered w (answer_text Enc_none Ct_html body) w'"
proof -
  have 1: "http_arg_long (req @ NUL # zs) ''timestamp'' = Inr (0, Some ts)"
    by (rule arg_long_reads) (use assms in simp_all)
  have len: "length (uninit 1024) = 1024" by (simp add: uninit_def)
  from http_arg_str_stores[OF assms(10,6) _ len, of zs] assms(11) obtain p where
    2: "http_arg_str (req @ NUL # zs) ''lables'' (uninit 1024) 1024 = Inr (0, p)"
      "cbuf_str p = Inr (percent_decode (percent_encode (label_list ls)))" by auto
  from 2(2) decode_encode[OF label_list_no_percent[OF assms(5)], of "[]"] have 3: "cbuf_str p = Inr (label_list ls)" by simp
  have idle: "out_idle (op\<lparr>out_encoding := Enc_none\<rparr>)" using assms(3) by simp
  from stored_answered[OF assms(1,2) idle _ assms(4,5), of "he_compress env" "[]"] obtain op' w' body where
    4: "rawlog_get_record (he_abi env) (he_jenv env) (Some (http_show_samp_done both_types (he_compress env)))
      (he_fs env) (he_caches env) ts (label_list ls @ [NUL]) (op\<lparr>out_encoding := Enc_none\<rparr>) w = Inr (0, op', w')"
    "out_idle op'" "json_valid body" "answered w (answer_text Enc_none Ct_html body) w'" by auto
  have "he_reg env = both_types" using assms(1) by (simp add: env_ok_def)
  with 1 2(1) 3 4 encoding_none[OF assms(12,6), of zs] show ?thesis
    by (auto simp: http_showsamp_def)
qed

section \<open>Properties\<close>

text \<open>
  A request goes to the handler that the path names, exactly and whatever query follows it; the empty path gets the
  index page, and every other path the answer 404.
\<close>

lemma http_process_request_routes:
  assumes "NUL \<notin> set p" "CHR ''?'' \<notin> set p" "q = [] \<or> hd q = CHR ''?''" "NUL \<notin> set q" "length (p @ q) < URL_LEN"
  shows "http_process_request env ((p @ q) @ NUL # zs) op w =
    (if p = [] then http_index env op w
     else case map_of (routes env ((p @ q) @ NUL # zs)) p of None \<Rightarrow> http_404_answer op w | Some h \<Rightarrow> h op w)"
  by (rule request_routed) (fact assms)+

text \<open>
  The server cannot be made to answer a template request without a type: nothing is sent at all, not even
  an error, and the client only sees the connection close.
\<close>

lemma http_get_template_silent:
  assumes "c_strstr req ''type'' = Inr None"
  shows "http_get_template env req op w = Inr (op, w)"
  using assms by (simp add: http_get_template_def http_arg_str_def)

text \<open>
  Whatever a request asks for: when the handler returns, the output buffer is empty again, so nothing of one
  answer gets into the next.
\<close>

lemma http_process_request_leaves_nothing:
  assumes "out_idle op" "http_process_request env req op w = Inr (op', w')"
  shows "out_ok op' \<and> out_content op' = []"
  using yieldsD[OF keeps_idleD[OF request_idle assms(1)] assms(2)] by (simp add: out_idle_def)

end
