(* ===== verification/Httpd.thy ===== *)
theory Httpd
  imports HttpServe
begin

text \<open>
  The server: \<open>httpd_handle_request\<close>, \<open>httpd_update_cache\<close>, \<open>httpd_routine\<close>, \<open>httpd\<close> and \<open>main\<close> of
  \<open>httpd.c\<close>.

  \<open>httpd_routine\<close> never returns. One round of its loop is the function \<open>httpd_round\<close> on the state of the
  server; the rounds that have been served are the inductive relation \<open>served\<close>, on which the invariants are proved.
\<close>

section \<open>One connection\<close>

definition INBUF_SIZE :: nat where "INBUF_SIZE = 4096"

text \<open>
  One iteration reads the clock and, while there is time, polls. When the list has run out, the clock is past the
  deadline.
\<close>

datatype poll_answer = P_zero | P_err | P_ready

definition CRLF2 :: string where "CRLF2 = CRLF @ CRLF"

text \<open>\<open>None\<close> is \<open>goto close_fd\<close>.\<close>

fun read_request ::
    "(int \<times> poll_answer) list \<Rightarrow> int \<Rightarrow> bytes \<Rightarrow> nat \<Rightarrow> wire \<Rightarrow> (bytes option \<times> wire) res" where
  "read_request [] deadline inbuf inbytes w = Inr (None, w)"
| "read_request ((now, p) # ticks) deadline inbuf inbytes w =
     (if now \<ge> deadline then Inr (None, w)
      else case p of
        P_err \<Rightarrow> Inr (None, w)
      | P_zero \<Rightarrow> read_request ticks deadline inbuf inbytes w
      | P_ready \<Rightarrow>
          let (ret, bs, k) = conn_read (INBUF_SIZE - inbytes) (fst w) (snd w); w = (k, snd w)
          in if ret < 0
             then if ret \<noteq> - int EAGAIN then Inr (None, w) else read_request ticks deadline inbuf inbytes w
             else let inbuf = take inbytes inbuf @ bs @ drop (inbytes + length bs) inbuf;
                      inbytes = inbytes + nat ret
                  in and_then (if inbytes \<ge> 4 then c_strstr inbuf CRLF2 else Inr None) (\<lambda>found.
                       if found \<noteq> None then Inr (Some inbuf, w)
                       else if inbytes = INBUF_SIZE then Inr (None, w)
                       else read_request ticks deadline inbuf inbytes w))"

text \<open>
  The request line: \<open>strncmp ("GET ", inbuf, 4)\<close>, then \<open>HTTP/1.1\<close> at an offset from 6 to \<open>URL_LEN + 6\<close>. What is between is
  copied to \<open>httpreq\<close>, which has \<open>URL_LEN\<close> bytes that are 0.
\<close>

definition request_line :: "bytes \<Rightarrow> bytes option res" where
  "request_line inbuf =
     (if take 4 inbuf \<noteq> ''GET '' then Inr None
      else and_then (c_strstr inbuf ''HTTP/1.1'') (\<lambda>v. case v of
             None \<Rightarrow> Inr None
           | Some httpver \<Rightarrow>
               let off = length inbuf - length httpver
               in if off > URL_LEN + 6 \<or> off < 6 then Inr None
                  else Inr (Some (take (off - 6) (drop 5 inbuf) @ replicate (URL_LEN - (off - 6)) NUL))))"

definition httpd_handle_request :: "http_env \<Rightarrow> int \<Rightarrow> (int \<times> poll_answer) list \<Rightarrow> handler" where
  "httpd_handle_request env now ticks op w =
     (let timeout = now + 100;
          (_, w) = fd_call w;
          (ret, w) = fd_call w
      in and_then
           (if ret \<noteq> 0 then Inr (op, w)
            else and_then (read_request ticks timeout (replicate INBUF_SIZE NUL) 0 w) (\<lambda>(inbuf, w). case inbuf of
                   None \<Rightarrow> Inr (op, w)
                 | Some inbuf \<Rightarrow> and_then (request_line inbuf) (\<lambda>httpreq. case httpreq of
                     None \<Rightarrow> Inr (op, w)
                   | Some httpreq \<Rightarrow> http_process_request env httpreq op w)))
           (\<lambda>(op, w). and_then (wire_close (he_reg env) w) (\<lambda>w. Inr (op, w))))"

section \<open>The loop of the server\<close>

text \<open>
  The state between two rounds: the output buffer \<open>defop\<close>, the index, the static variable \<open>update\<close>
  and the kernel.
\<close>

record server =
  sv_op :: output_t
  sv_caches :: cache_table
  sv_update :: time_t
  sv_kernel :: kernel

text \<open>
  \<open>httpd_update_cache\<close>; the file system and the directory are what they are at that moment. It reads
  every file that has changed and may not return (see \<open>Rawlog\<close>).
\<close>

definition httpd_update_cache ::
    "abi \<Rightarrow> fs \<Rightarrow> string \<Rightarrow> nat + (string \<times> bool) list \<Rightarrow> time_t \<Rightarrow> time_t \<times> cache_table \<Rightarrow> (time_t \<times> cache_table) run" where
  "httpd_update_cache abi fs log_path dir now s =
     (case s of (update, caches) \<Rightarrow>
       if now - update < 3 then Some (Inr (update, caches))
       else and_run (rawlog_parse_all abi fs log_path dir caches) (\<lambda>(_, caches). Some (Inr (now, caches))))"

datatype epoll_answer = Ep_none | Ep_err nat | Ep_ready connection

definition EINTR :: nat where "EINTR = 4"

text \<open>
  What the outside does in one round: \<open>epoll_wait\<close>, the clocks, the polls, the answers of the kernel for
  the new connection, and the file system while the request is served and when the index is updated.
\<close>

record round =
  rd_epoll :: epoll_answer
  rd_start :: int
  rd_ticks :: "(int \<times> poll_answer) list"
  rd_kernel :: "kernel \<Rightarrow> kernel"
  rd_fs :: fs
  rd_now :: time_t
  rd_fs_later :: fs
  rd_dir :: "nat + (string \<times> bool) list"

definition httpd_round :: "http_env \<Rightarrow> string \<Rightarrow> round \<Rightarrow> server \<Rightarrow> server run" where
  "httpd_round env log_path rd sv =
     (case rd_epoll rd of
        Ep_none \<Rightarrow> Some (Inr sv)
      | Ep_err e \<Rightarrow> if e = EINTR then Some (Inr sv) else Some (Inl (Exit 1))
      | Ep_ready listener \<Rightarrow>
          let conn = conn_create (c_type listener) (- 1) None
          in and_run (Some (conn_accept (he_reg env) listener (rd_kernel rd (sv_kernel sv)) conn)) (\<lambda>(ret, k, conn).
               if ret < 0
               then and_run (Some (conn_close (he_reg env) k conn)) (\<lambda>(k, _). Some (Inr (sv\<lparr>sv_kernel := k\<rparr>)))
               else and_run (Some (httpd_handle_request (env\<lparr>he_fs := rd_fs rd, he_caches := sv_caches sv\<rparr>)
                                (rd_start rd) (rd_ticks rd) (sv_op sv) (k, conn))) (\<lambda>(op, (k, _)).
                    and_run (httpd_update_cache (he_abi env) (rd_fs_later rd) log_path (rd_dir rd) (rd_now rd)
                                (sv_update sv, sv_caches sv)) (\<lambda>(update, caches).
                      Some (Inr (sv\<lparr>sv_op := op, sv_kernel := k, sv_update := update, sv_caches := caches\<rparr>))))))"

inductive served :: "http_env \<Rightarrow> string \<Rightarrow> server \<Rightarrow> round list \<Rightarrow> server \<Rightarrow> bool" for env log_path sv0 where
  served_start: "served env log_path sv0 [] sv0"
| served_round: "served env log_path sv0 rds sv \<Longrightarrow> httpd_round env log_path rd sv = Some (Inr sv') \<Longrightarrow>
    served env log_path sv0 (rds @ [rd]) sv'"

text \<open>The same, computed.\<close>

fun httpd_rounds :: "http_env \<Rightarrow> string \<Rightarrow> round list \<Rightarrow> server \<Rightarrow> server run" where
  "httpd_rounds env log_path [] sv = Some (Inr sv)"
| "httpd_rounds env log_path (rd # rds) sv = and_run (httpd_round env log_path rd sv) (httpd_rounds env log_path rds)"

section \<open>Start\<close>

text \<open>
  The part of \<open>httpd_routine\<close> before the loop, on the array of the listeners: it listens on each in turn and adds it
  to the epoll instance. The first failure ends the program, and so does an array without a listener.
\<close>

fun listen_all :: "registry \<Rightarrow> connection option list \<Rightarrow> kernel \<Rightarrow> (connection list \<times> kernel) res" where
  "listen_all reg [] k = Inr ([], k)"
| "listen_all reg (None # ls) k = listen_all reg ls k"
| "listen_all reg (Some listener # ls) k =
     and_then (conn_listen reg k listener) (\<lambda>(ret, k, listener).
       if ret < 0 then Inl (Exit 1)
       else let (ret, k) = k_call k
            in if ret \<noteq> 0 then Inl (Exit 1)
               else and_then (listen_all reg ls k) (\<lambda>(ls, k). Inr (listener # ls, k)))"

definition httpd_start :: "registry \<Rightarrow> connection option list \<Rightarrow> kernel \<Rightarrow> (connection list \<times> kernel) res" where
  "httpd_start reg listeners k =
     (let (epollfd, k) = k_call k
      in if epollfd < 0 then Inl (Exit 1)
         else and_then (listen_all reg listeners k) (\<lambda>(ls, k).
                if ls = [] then Inl (Exit 1) else Inr (ls, k)))"

record atophttpd_context =
  cx_port :: int
  cx_daemonmode :: int
  cx_addr :: "string option"
  cx_log_path :: "string option"
  cx_tls :: tls_config
  cx_debug :: int
  cx_hidecmdline :: int

definition config :: atophttpd_context where
  "config = \<lparr>cx_port = 2867, cx_daemonmode = 0, cx_addr = Some ''127.0.0.1'', cx_log_path = Some ''/var/log/atop'',
     cx_tls = \<lparr>tls_port = - 1, tls_addr = Some ''::*'', ca_cert_file = Some ''/etc/pki/CA/ca.crt'',
       cert_file = Some ''/etc/pki/atophttpd/server.crt'', key_file = Some ''/etc/pki/atophttpd/server.key''\<rparr>,
     cx_debug = 0, cx_hidecmdline = 0\<rparr>"

text \<open>The listeners that \<open>httpd\<close> creates.\<close>

definition httpd_listeners ::
    "registry \<Rightarrow> atophttpd_context \<Rightarrow> ssl_answers \<Rightarrow> kernel \<Rightarrow> (connection option list \<times> kernel) res" where
  "httpd_listeners reg ctx sa k =
     (let ls = replicate CONN_TYPE_MAX None
      in and_then
           (if cx_port ctx > 0
            then let i = get_conntype_index_by_name ''tcp'' reg
                 in if i < 0 then Inl (Exit 1)
                    else case get_conntype_by_name ''tcp'' reg of
                           None \<Rightarrow> Inl NullDeref
                         | Some ct \<Rightarrow> Inr (ls[nat i := Some (conn_create ct (cx_port ctx) (cx_addr ctx))])
            else Inr ls) (\<lambda>ls.
         if tls_port (cx_tls ctx) > 0
         then let i = get_conntype_index_by_name ''tls'' reg
              in if i < 0 then Inl (Exit 1)
                 else case get_conntype_by_name ''tls'' reg of
                        None \<Rightarrow> Inl NullDeref
                      | Some ct \<Rightarrow>
                          let listener = conn_create ct (tls_port (cx_tls ctx)) (tls_addr (cx_tls ctx));
                              (ret, k) = tls_configure (cx_tls ctx) sa k
                          in if ret < 0 then Inl (Exit 1) else Inr (ls[nat i := Some listener], k)
         else Inr (ls, k)))"

text \<open>
  The switch over what \<open>getopt_long\<close> returns: the letter and \<open>optarg\<close>. Everything else shows the help
  and ends the program.
\<close>

definition c_atoi_int :: "string \<Rightarrow> int" where
  "c_atoi_int s = sint (c_atoi (s @ [NUL]))"

definition set_option :: "char \<times> string option \<Rightarrow> atophttpd_context \<Rightarrow> atophttpd_context res" where
  "set_option opt ctx =
     (case opt of (ch, optarg) \<Rightarrow>
       if ch = NUL then Inr ctx
       else if ch = CHR ''d'' then Inr (ctx\<lparr>cx_daemonmode := 1\<rparr>)
       else if ch = CHR ''D'' then Inr (ctx\<lparr>cx_debug := 1\<rparr>)
       else if ch = CHR ''p'' then (case optarg of None \<Rightarrow> Inl NullDeref | Some a \<Rightarrow> Inr (ctx\<lparr>cx_port := c_atoi_int a\<rparr>))
       else if ch = CHR ''a'' then Inr (ctx\<lparr>cx_addr := optarg\<rparr>)
       else if ch = CHR ''P'' then Inr (ctx\<lparr>cx_log_path := optarg\<rparr>)
       else if ch = CHR ''t'' then
         Inr (ctx\<lparr>cx_tls := (cx_tls ctx)\<lparr>tls_port := (case optarg of None \<Rightarrow> 2868 | Some a \<Rightarrow> c_atoi_int a)\<rparr>\<rparr>)
       else if ch = CHR ''A'' then Inr (ctx\<lparr>cx_tls := (cx_tls ctx)\<lparr>tls_addr := optarg\<rparr>\<rparr>)
       else if ch = CHR ''C'' then Inr (ctx\<lparr>cx_tls := (cx_tls ctx)\<lparr>ca_cert_file := optarg\<rparr>\<rparr>)
       else if ch = CHR ''c'' then Inr (ctx\<lparr>cx_tls := (cx_tls ctx)\<lparr>cert_file := optarg\<rparr>\<rparr>)
       else if ch = CHR ''k'' then Inr (ctx\<lparr>cx_tls := (cx_tls ctx)\<lparr>key_file := optarg\<rparr>\<rparr>)
       else if ch = CHR ''H'' then Inr (ctx\<lparr>cx_hidecmdline := 1\<rparr>)
       else Inl (Exit 0))"

fun set_options :: "(char \<times> string option) list \<Rightarrow> atophttpd_context \<Rightarrow> atophttpd_context res" where
  "set_options [] ctx = Inr ctx"
| "set_options (opt # opts) ctx = and_then (set_option opt ctx) (set_options opts)"

text \<open>
  \<open>main\<close> up to the loop of the server: \<open>Inl\<close> of the inner sum is the status that it returns, \<open>Inr\<close> the
  listeners and the state with which the loop starts.
\<close>

definition httpd_main ::
    "(char \<times> string option) list \<Rightarrow> abi \<Rightarrow> fs \<Rightarrow> nat + (string \<times> bool) list \<Rightarrow> bool \<Rightarrow> ssl_answers \<Rightarrow> output_t \<Rightarrow> kernel
       \<Rightarrow> (int + (connection list \<times> atophttpd_context \<times> registry \<times> server)) run" where
  "httpd_main opts abi fs dir use_tls sa op k =
     and_run (Some (set_options opts config)) (\<lambda>ctx.
       case cx_log_path ctx of
         None \<Rightarrow> Some (Inr (Inl (- 1)))
       | Some path \<Rightarrow>
         and_run (rawlog_parse_all abi fs path dir []) (\<lambda>(ret, caches).
           if ret \<noteq> 0 then Some (Inr (Inl (- 1)))
           else let reg = conntype_initialize use_tls k []
                in and_run (Some (httpd_listeners reg ctx sa k)) (\<lambda>(ls, k).
                   and_run (Some (httpd_start reg ls k)) (\<lambda>(ls, k).
                     Some (Inr (Inr (ls, ctx, reg, \<lparr>sv_op = op, sv_caches = caches, sv_update = 0, sv_kernel = k\<rparr>)))))))"

end
