(* ===== verification/HttpdProofs.thy ===== *)
theory HttpdProofs
  imports Httpd
begin

text \<open>
  What the server promises: a request is read the same however the network cuts it into packets, it is
  answered, and its connection is closed on every path; between two rounds the server holds exactly the descriptors it
  started with, its output buffer is empty and its index is well formed.
\<close>

section \<open>Reading a request\<close>

text \<open>
  What arrives before the deadline: packets, polls without an event, and reads that have to be repeated.
\<close>

inductive delivered :: "int \<Rightarrow> (int \<times> poll_answer) list \<Rightarrow> in_event list \<Rightarrow> bytes \<Rightarrow> bool" for deadline where
  last_packet: "now < deadline \<Longrightarrow> bs \<noteq> [] \<Longrightarrow> delivered deadline ((now, P_ready) # ticks) (In_data bs # es) bs"
| next_packet: "now < deadline \<Longrightarrow> bs \<noteq> [] \<Longrightarrow> delivered deadline ticks es rest \<Longrightarrow>
    delivered deadline ((now, P_ready) # ticks) (In_data bs # es) (bs @ rest)"
| no_event: "now < deadline \<Longrightarrow> delivered deadline ticks es rest \<Longrightarrow> delivered deadline ((now, P_zero) # ticks) es rest"
| read_again: "now < deadline \<Longrightarrow> delivered deadline ticks es rest \<Longrightarrow>
    delivered deadline ((now, P_ready) # ticks) (In_err EAGAIN # es) rest"

lemma delivered_nonempty: "delivered deadline ticks es bs \<Longrightarrow> bs \<noteq> []"
  by (induction rule: delivered.induct) auto

lemma strstr_none:
  assumes "\<And>i. i \<le> length a \<Longrightarrow> \<not> prefix needle (drop i a)" "NUL \<notin> set a" "NUL \<notin> set needle"
  shows "c_strstr (a @ NUL # zs) needle = Inr None"
  using assms(1,2)
proof (induction a)
  case Nil
  have "needle \<noteq> []" using Nil(1)[of 0] by auto
  then have "\<not> prefix needle (NUL # zs)" using assms(3) by (cases needle) auto
  then show ?case by simp
next
  case (Cons c a)
  have "\<not> prefix needle ((c # a) @ NUL # zs)"
  proof
    assume "prefix needle ((c # a) @ NUL # zs)"
    then have "prefix needle (c # a) \<or> (\<exists>r. needle = (c # a) @ r \<and> r \<noteq> [] \<and> prefix r (NUL # zs))"
      unfolding prefix_append[of needle "c # a" "NUL # zs"] by (metis append_Nil2 prefix_order.refl)
    with Cons.prems(1)[of 0] obtain r where "needle = (c # a) @ r" "r \<noteq> []" "prefix r (NUL # zs)" by auto
    then have "NUL \<in> set needle" by (cases r) auto
    with assms(3) show False by blast
  qed
  moreover have "c_strstr (a @ NUL # zs) needle = Inr None"
  proof (rule Cons.IH)
    fix i assume "i \<le> length a" then show "\<not> prefix needle (drop i a)" using Cons.prems(1)[of "Suc i"] by simp
  qed (use Cons.prems(2) in simp)
  ultimately show ?case using Cons.prems(2) by simp
qed

text \<open>
  A request that ends with the first empty line: the empty line is nowhere before its end.
\<close>

definition complete :: "bytes \<Rightarrow> bool" where
  "complete req \<longleftrightarrow> (\<exists>l. req = l @ CRLF2) \<and> NUL \<notin> set req \<and> length req \<le> INBUF_SIZE
     \<and> (\<forall>i. i + 4 < length req \<longrightarrow> \<not> prefix CRLF2 (drop i req))"

lemma CRLF2_length [simp]: "length CRLF2 = 4"
  by (simp add: CRLF2_def CRLF_def)

lemma CRLF2_nonempty [simp]: "CRLF2 \<noteq> []"
  by (simp add: CRLF2_def CRLF_def)

lemma CRLF2_NUL [simp]: "NUL \<notin> set CRLF2"
  by (simp add: CRLF2_def CRLF_def)

lemma complete_partial:
  assumes "complete (a @ b)" "b \<noteq> []"
  shows "c_strstr (a @ NUL # zs) CRLF2 = Inr None" "length a < INBUF_SIZE"
proof -
  have nul: "NUL \<notin> set a" using assms(1) by (simp add: complete_def)
  show "c_strstr (a @ NUL # zs) CRLF2 = Inr None"
  proof (rule strstr_none[OF _ nul CRLF2_NUL])
    fix i assume i: "i \<le> length a"
    show "\<not> prefix CRLF2 (drop i a)"
    proof
      assume p: "prefix CRLF2 (drop i a)"
      then have "i + 4 \<le> length a" using prefix_length_le[OF p] i by simp
      then have "i + 4 < length (a @ b)" using assms(2) by (cases b) auto
      with assms(1) have "\<not> prefix CRLF2 (drop i (a @ b))" unfolding complete_def by blast
      moreover have "prefix CRLF2 (drop i (a @ b))" using p i by (simp add: prefix_prefix)
      ultimately show False by blast
    qed
  qed
  show "length a < INBUF_SIZE" using assms by (cases b) (auto simp: complete_def)
qed

lemma complete_end:
  assumes "complete req"
  shows "\<exists>r. c_strstr (req @ zs) CRLF2 = Inr (Some r)" "4 \<le> length req"
proof -
  obtain l where l: "req = l @ CRLF2" using assms by (auto simp: complete_def)
  have "c_strstr (l @ CRLF2 @ zs) CRLF2 = Inr (Some (CRLF2 @ zs))"
  proof (rule c_strstr_at)
    fix i assume i: "i < length l"
    show "\<not> prefix CRLF2 (drop i (l @ CRLF2 @ zs))"
    proof
      assume p: "prefix CRLF2 (drop i (l @ CRLF2 @ zs))"
      have "drop i (l @ CRLF2 @ zs) = drop i req @ zs" using i l by simp
      with p have "prefix CRLF2 (drop i req @ zs)" by simp
      moreover have "length CRLF2 \<le> length (drop i req)" using i l by simp
      ultimately have "prefix CRLF2 (drop i req)" by (rule prefix_length_prefix[OF _ prefixI[OF refl]])
      moreover have "i + 4 < length req" using i l by simp
      ultimately show False using assms unfolding complete_def by blast
    qed
  qed (use assms l in \<open>auto simp: complete_def\<close>)
  then show "\<exists>r. c_strstr (req @ zs) CRLF2 = Inr (Some r)" using l by auto
  show "4 \<le> length req" using l by simp
qed

lemma read_up:
  assumes "conn_up c" "c_fd c \<noteq> - 1"
  shows "conn_read n k c = (let (ret, bs, k) = k_recv n k
           in if ret \<le> 0 then (if k_errno k \<noteq> EAGAIN then - int (k_errno k) else - int EAGAIN, [], k) else (ret, bs, k))"
  using assms by (cases "c_type c") (auto simp: conn_read_def conn_socket_read_def conn_read_tls_def conn_up_def)

definition inbuf_of :: "bytes \<Rightarrow> bytes" where
  "inbuf_of acc = acc @ replicate (INBUF_SIZE - length acc) NUL"

lemma inbuf_add:
  "length (acc @ bs) \<le> INBUF_SIZE \<Longrightarrow>
     take (length acc) (inbuf_of acc) @ bs @ drop (length acc + length bs) (inbuf_of acc) = inbuf_of (acc @ bs)"
  by (simp add: inbuf_of_def)

text \<open>However the request is cut into packets, it ends up in the buffer as it was sent.\<close>

lemma read_request_delivered:
  assumes "delivered deadline ticks es rest" "complete (acc @ rest)" "k_in k = es" "conn_up c" "c_fd c \<noteq> - 1"
  shows "\<exists>es' e. read_request ticks deadline (inbuf_of acc) (length acc) (k, c)
    = Inr (Some (inbuf_of (acc @ rest)), (k\<lparr>k_in := es', k_errno := e\<rparr>, c))"
  using assms(1-3)
proof (induction arbitrary: acc k rule: delivered.induct)
  case (last_packet now bs ticks es)
  let ?k = "k\<lparr>k_in := es\<rparr>"
  have len: "length (acc @ bs) \<le> INBUF_SIZE" using last_packet.prems(1) by (simp add: complete_def)
  have read: "conn_read (INBUF_SIZE - length acc) k c = (int (length bs), bs, ?k)"
    using last_packet len by (simp add: read_up[OF assms(4,5)] k_recv_def)
  from complete_end[OF last_packet.prems(1)] obtain r where
    "c_strstr (inbuf_of (acc @ bs)) CRLF2 = Inr (Some r)" "4 \<le> length (acc @ bs)"
    unfolding inbuf_of_def by blast
  with last_packet.hyps(1) read inbuf_add[OF len] show ?case
    by (intro exI[of _ es] exI[of _ "k_errno k"]) (simp add: Let_def)
next
  case (next_packet now bs ticks es rest)
  let ?k = "k\<lparr>k_in := es\<rparr>"
  have c: "complete ((acc @ bs) @ rest)" using next_packet.prems(1) by simp
  note part = complete_partial[OF c delivered_nonempty[OF next_packet.hyps(3)]]
  have read: "conn_read (INBUF_SIZE - length acc) k c = (int (length bs), bs, ?k)"
    using next_packet.hyps(2) next_packet.prems(2) part(2) by (simp add: read_up[OF assms(4,5)] k_recv_def)
  have ib: "inbuf_of (acc @ bs) = (acc @ bs) @ NUL # replicate (INBUF_SIZE - length (acc @ bs) - 1) NUL"
    using part(2) by (cases "INBUF_SIZE - length (acc @ bs)") (simp_all add: inbuf_of_def)
  have none: "c_strstr (inbuf_of (acc @ bs)) CRLF2 = Inr None" unfolding ib by (rule part(1))
  have add: "take (length acc) (inbuf_of acc) @ bs @ drop (length acc + length bs) (inbuf_of acc) = inbuf_of (acc @ bs)"
    by (rule inbuf_add) (use part(2) in simp)
  have "read_request ((now, P_ready) # ticks) deadline (inbuf_of acc) (length acc) (k, c)
      = read_request ticks deadline (inbuf_of (acc @ bs)) (length (acc @ bs)) (?k, c)"
    using next_packet.hyps(1) part(2) by (simp add: read none add Let_def)
  with next_packet.IH[OF c, of ?k] show ?case by auto
next
  case (no_event now ticks es rest)
  then show ?case by simp
next
  case (read_again now ticks es rest)
  let ?k = "k\<lparr>k_in := es, k_errno := EAGAIN\<rparr>"
  have "length acc < INBUF_SIZE"
    using complete_partial(2)[OF read_again.prems(1) delivered_nonempty[OF read_again.hyps(2)]] .
  then have read: "conn_read (INBUF_SIZE - length acc) k c = (- int EAGAIN, [], ?k)"
    using read_again.prems(2) by (simp add: read_up[OF assms(4,5)] k_recv_def)
  have neg: "- int EAGAIN < 0" by (simp add: EAGAIN_def)
  have "read_request ((now, P_ready) # ticks) deadline (inbuf_of acc) (length acc) (k, c)
      = read_request ticks deadline (inbuf_of acc) (length acc) (?k, c)"
    using read_again.hyps(1) neg by (simp add: read Let_def)
  with read_again.IH[OF read_again.prems(1), of ?k] show ?case by auto
qed

section \<open>Handling a request\<close>

text \<open>
  The client asks for \<open>req\<close>: the bytes are \<open>GET /req HTTP/1.1\<close> and whatever headers, up to the empty line; they
  fit into the buffer, and the version is not within what is asked for.
\<close>

definition asks_for :: "bytes \<Rightarrow> bytes \<Rightarrow> bool" where
  "asks_for bs req \<longleftrightarrow> complete bs \<and> length req \<le> URL_LEN
     \<and> (\<exists>rest. bs = ''GET /'' @ req @ '' HTTP/1.1'' @ rest) \<and> (\<forall>i < length req + 6. \<not> prefix ''HTTP/1.1'' (drop i bs))"

lemma not_prefix_appended: "\<not> prefix p s \<Longrightarrow> length p \<le> length s \<Longrightarrow> \<not> prefix p (s @ t)"
  using prefix_length_prefix[of p "s @ t" s] by auto

lemma request_line_asked:
  assumes "asks_for bs req"
  shows "request_line (inbuf_of bs) = Inr (Some (req @ replicate (URL_LEN - length req) NUL))"
proof -
  obtain rest where bs: "bs = ''GET /'' @ req @ '' HTTP/1.1'' @ rest" using assms by (auto simp: asks_for_def)
  let ?zs = "replicate (INBUF_SIZE - length bs) NUL" and ?a = "''GET /'' @ req @ '' ''"
  let ?r = "''HTTP/1.1'' @ rest @ ?zs"
  have nul: "NUL \<notin> set bs" and len: "length req \<le> URL_LEN" using assms by (simp_all add: asks_for_def complete_def)
  have all: "?a @ ?r = bs @ ?zs" by (simp add: bs)
  then have buf: "inbuf_of bs = ?a @ ?r" by (simp add: inbuf_of_def)
  have "c_strstr (?a @ ?r) ''HTTP/1.1'' = Inr (Some ?r)"
  proof (rule c_strstr_at)
    fix i assume i: "i < length ?a"
    then have "\<not> prefix ''HTTP/1.1'' (drop i bs)" using assms unfolding asks_for_def by simp
    moreover have "length ''HTTP/1.1'' \<le> length (drop i bs)" using i by (simp add: bs)
    moreover have "drop i (?a @ ?r) = drop i bs @ ?zs" using i drop_append[of i bs ?zs] unfolding all by (simp add: bs)
    ultimately show "\<not> prefix ''HTTP/1.1'' (drop i (?a @ ?r))" using not_prefix_appended by metis
  next
    show "NUL \<notin> set ?a" using nul by (simp add: bs)
  qed simp_all
  then have "c_strstr (inbuf_of bs) ''HTTP/1.1'' = Inr (Some ?r)" unfolding buf .
  moreover have "take 4 (inbuf_of bs) = ''GET ''" by (simp add: buf)
  moreover have "length (inbuf_of bs) - length ?r = length req + 6" by (simp add: buf)
  moreover have "take (length req) (drop 5 (inbuf_of bs)) = req" by (simp add: buf)
  ultimately show ?thesis using len by (simp add: request_line_def)
qed

lemma fd_call_willing: "willing w \<Longrightarrow> fd_call w = (0, w)"
  by (cases w) (simp add: willing_def fd_call_def k_call_def)

lemma handle_delivered:
  assumes "willing (k, c)" "delivered (now + 100) ticks (k_in k) bs" "asks_for bs req"
  shows "\<exists>es e. httpd_handle_request env now ticks op (k, c)
    = and_then (http_process_request env (req @ replicate (URL_LEN - length req) NUL) op (k\<lparr>k_in := es, k_errno := e\<rparr>, c))
        (\<lambda>(op, w). and_then (wire_close (he_reg env) w) (\<lambda>w. Inr (op, w)))"
proof -
  have up: "conn_up c" "c_fd c \<noteq> - 1" using assms(1) by (simp_all add: willing_def)
  have "complete ([] @ bs)" using assms(3) by (simp add: asks_for_def)
  from read_request_delivered[OF assms(2) this refl up] obtain es e where
    "read_request ticks (now + 100) (replicate INBUF_SIZE NUL) 0 (k, c) = Inr (Some (inbuf_of bs), (k\<lparr>k_in := es, k_errno := e\<rparr>, c))"
    by (auto simp: inbuf_of_def)
  then show ?thesis
    by (intro exI[of _ es] exI[of _ e])
      (simp add: httpd_handle_request_def fd_call_willing[OF assms(1)] request_line_asked[OF assms(3)])
qed

lemma close_again: "released w w' \<Longrightarrow> \<exists>w''. wire_close both_types w' = Inr w'' \<and> released w w'' \<and> k_out (fst w'') = k_out (fst w')"
proof -
  assume r: "released w w'"
  then have "\<not> conn_up (snd w')" "c_fd (snd w') = - 1" by (simp_all add: released_def)
  then have "wire_close both_types w' = Inr w'"
    using conn.close_idle[of "snd w'" "fst w'"] by (cases w') (simp add: wire_close_def)
  with r show ?thesis by blast
qed

lemma handle_answered:
  assumes "he_reg env = both_types" "willing (k, c)" "delivered (now + 100) ticks (k_in k) bs" "asks_for bs req"
    and "\<And>w. willing w \<Longrightarrow> \<exists>op' w'. http_process_request env (req @ replicate (URL_LEN - length req) NUL) op w
           = Inr (op', w') \<and> P op' \<and> (\<exists>t. Q t \<and> answered w t w')"
  shows "\<exists>op' w'. httpd_handle_request env now ticks op (k, c) = Inr (op', w') \<and> P op' \<and> (\<exists>t. Q t \<and> answered (k, c) t w')"
proof -
  from handle_delivered[OF assms(2-4), of env op] obtain es e where
    h: "httpd_handle_request env now ticks op (k, c)
      = and_then (http_process_request env (req @ replicate (URL_LEN - length req) NUL) op (k\<lparr>k_in := es, k_errno := e\<rparr>, c))
        (\<lambda>(op, w). and_then (wire_close (he_reg env) w) (\<lambda>w. Inr (op, w)))" by blast
  have "willing (k\<lparr>k_in := es, k_errno := e\<rparr>, c)" using assms(2) by (simp add: willing_def)
  from assms(5)[OF this] obtain op' w' t where
    p: "http_process_request env (req @ replicate (URL_LEN - length req) NUL) op (k\<lparr>k_in := es, k_errno := e\<rparr>, c) = Inr (op', w')"
    and q: "P op'" "Q t" and a: "answered (k\<lparr>k_in := es, k_errno := e\<rparr>, c) t w'" by blast
  from a have a: "answered (k, c) t w'" by (simp add: answered_def released_def)
  then obtain w'' where w: "wire_close both_types w' = Inr w''" "answered (k, c) t w''"
    using close_again[of "(k, c)" w'] by (auto simp: answered_def)
  show ?thesis
    by (rule exI[of _ op'], rule exI[of _ w''], rule conjI) (use h p w(1) assms(1) in simp, use q w(2) in blast)
qed

section \<open>The connection is closed on every path\<close>

lemma k_recv_open [simp]: "k_open (snd (snd (k_recv n k))) = k_open k"
  by (simp add: k_recv_def split: list.splits in_event.splits)

lemma conn_read_open: "conn_read n k c = (ret, bs, k') \<Longrightarrow> k_open k' = k_open k"
proof -
  obtain r b k1 where recv: "k_recv n k = (r, b, k1)" by (rule prod_cases3)
  with k_recv_open[of n k] have "k_open k1 = k_open k" by simp
  with recv show "conn_read n k c = (ret, bs, k') \<Longrightarrow> k_open k' = k_open k"
    by (auto simp: conn_read_def conn_socket_read_def conn_read_tls_def split: conn_type.splits if_splits)
qed

lemma read_request_untouched: "yields (\<lambda>(inbuf', w'). untouched w w') (read_request ticks deadline inbuf n w)"
proof (induction ticks arbitrary: inbuf n w)
  case Nil
  then show ?case by (simp add: yields_def)
next
  case (Cons tick ticks)
  obtain now p where tick: "tick = (now, p)" by (cases tick)
  obtain ret bs k where read: "conn_read (INBUF_SIZE - n) (fst w) (snd w) = (ret, bs, k)" by (rule prod_cases3)
  let ?w = "(k, snd w)" and ?b = "take n inbuf @ bs @ drop (n + length bs) inbuf"
  have u: "untouched w ?w" using conn_read_open[OF read] by (simp add: untouched_def)
  have go: "yields (\<lambda>(inbuf', w'). untouched w w') (read_request ticks deadline b m ?w)" for b m
    using Cons[of ?w b m] untouched_trans[OF u] by (auto simp: yields_def)
  have stop: "yields (\<lambda>(inbuf', w'). untouched w w') (Inr (x, v))" if "v = w \<or> v = ?w" for x :: "bytes option" and v
    using that u by (auto simp: yields_def)
  have "yields (\<lambda>(inbuf', w'). untouched w w')
      (and_then (if n + nat ret \<ge> 4 then c_strstr ?b CRLF2 else Inr None) (\<lambda>found.
         if found \<noteq> None then Inr (Some ?b, ?w)
         else if n + nat ret = INBUF_SIZE then Inr (None, ?w)
         else read_request ticks deadline ?b (n + nat ret) ?w))"
    by (intro yields_splits go stop) auto
  then show ?case
    using go stop Cons read by (auto simp: tick Let_def split: poll_answer.splits)
qed

lemma settled_close: "settled w w1 \<Longrightarrow> wire_close both_types w1 = Inr w' \<Longrightarrow> released w w'"
  using wire_close_releases[of w1] close_again[of w w1] by (auto simp: settled_def intro: released_after)

text \<open>Whatever happened, either nothing was done on the connection or a request was processed; then it is closed.\<close>

lemma handle_cases:
  assumes "httpd_handle_request env now ticks op w = Inr (op', w')"
  shows "\<exists>v w1. untouched w v \<and> wire_close (he_reg env) w1 = Inr w'
    \<and> ((op' = op \<and> w1 = v) \<or> (\<exists>req. http_process_request env req op v = Inr (op', w1)))"
proof -
  let ?w = "snd (fd_call (snd (fd_call w)))"
  let ?P = "\<lambda>(op', w1). \<exists>v. untouched w v \<and> ((op' = op \<and> w1 = v) \<or> (\<exists>req. http_process_request env req op v = Inr (op', w1)))"
  have u: "untouched w ?w" using fd_call_untouched untouched_trans by blast
  have stop: "yields ?P (Inr (op, v))" if "untouched w v" for v
    by (rule yields_Inr, simp only: prod.case, rule exI[of _ v]) (use that in blast)
  have go: "yields ?P (http_process_request env req op v)" if "untouched w v" for req v
    unfolding yields_def by (auto simp only: prod.case intro!: exI[of _ v] that)
  let ?run = "\<lambda>ret w. if ret \<noteq> (0 :: int) then Inr (op, w)
      else and_then (read_request ticks (now + 100) (replicate INBUF_SIZE NUL) 0 w) (\<lambda>(inbuf, w). case inbuf of
             None \<Rightarrow> Inr (op, w)
           | Some inbuf \<Rightarrow> and_then (request_line inbuf) (\<lambda>httpreq. case httpreq of
               None \<Rightarrow> Inr (op, w)
             | Some httpreq \<Rightarrow> http_process_request env httpreq op w))"
  have "yields ?P (?run (fst (fd_call (snd (fd_call w)))) ?w)"
  proof (intro yields_splits)
    show "yields ?P (Inr (op, ?w))" by (rule stop[OF u])
  next
    fix x inbuf v assume "read_request ticks (now + 100) (replicate INBUF_SIZE NUL) 0 ?w = Inr x" "x = (inbuf, v)"
    with yieldsD[OF read_request_untouched] have "untouched ?w v" by fastforce
    then have v: "untouched w v" by (rule untouched_trans[OF u])
    show "yields ?P (Inr (op, v))" by (rule stop[OF v])
    show "yields ?P (Inr (op, v))" by (rule stop[OF v])
    show "yields ?P (http_process_request env req op v)" for req by (rule go[OF v])
  qed
  moreover obtain op1 w1 where run: "?run (fst (fd_call (snd (fd_call w)))) ?w = Inr (op1, w1)"
    and "wire_close (he_reg env) w1 = Inr w'" "op1 = op'"
    using assms by (auto simp: httpd_handle_request_def Let_def and_then_Inr_iff split_beta)
  ultimately show ?thesis using yieldsD[OF _ run] by blast
qed

lemma handle_settles:
  assumes "he_reg env = both_types" "httpd_handle_request env now ticks op w = Inr (op', w')"
  shows "released w w'"
proof -
  from handle_cases[OF assms(2)] obtain v w1 where v: "untouched w v" and c: "wire_close both_types w1 = Inr w'"
    and "(op' = op \<and> w1 = v) \<or> (\<exists>req. http_process_request env req op v = Inr (op', w1))"
    unfolding assms(1) by blast
  then have "settled v w1"
  proof (elim disjE conjE exE)
    assume "w1 = v" then show ?thesis by (simp add: settled_def)
  qed (rule settling_handlerD[OF request_settles[OF assms(1)]])
  from settled_close[OF settled_after[OF v this] c] show ?thesis .
qed

lemma handle_idle:
  assumes "out_idle op" "httpd_handle_request env now ticks op w = Inr (op', w')"
  shows "out_idle op'"
  using handle_cases[OF assms(2)] assms(1) yieldsD[OF keeps_idleD[OF request_idle assms(1)]] by fastforce

section \<open>The rounds of the server\<close>

text \<open>The kernel hands out descriptors that are not in use, and does not touch those of the server.\<close>

definition accepts_fresh :: "kernel \<Rightarrow> bool" where
  "accepts_fresh k \<longleftrightarrow> (case k_accept k of Inr fd # _ \<Rightarrow> fd \<noteq> - 1 \<and> fd \<notin> set (k_open k) | _ \<Rightarrow> True)"

definition round_ok :: "string \<Rightarrow> round \<Rightarrow> bool" where
  "round_ok log_path rd \<longleftrightarrow> (\<forall>k. k_open (rd_kernel rd k) = k_open k \<and> accepts_fresh (rd_kernel rd k))
     \<and> (\<forall>p f. rd_fs_later rd p = Inr f \<longrightarrow> file_ok f)
     \<and> (\<forall>ds. rd_dir rd = Inr ds \<longrightarrow> (\<forall>(n, r) \<in> set ds. r \<longrightarrow> length (log_path @ ''/'' @ n) < PATH_MAX))"

lemma socket_accept_open:
  assumes "conn_socket_accept listener k conn = (ret, k', conn')" "c_fd conn = - 1" "accepts_fresh k"
  shows "set (k_open k') - (if c_fd conn' = - 1 then {} else {c_fd conn'}) = set (k_open k)"
  using assms by (auto simp: conn_socket_accept_def accepts_fresh_def split: list.splits sum.splits)

lemma accept_open:
  assumes "conn_accept both_types listener k conn = Inr (ret, k', conn')" "c_fd conn = - 1" "accepts_fresh k"
  shows "set (k_open k') - (if c_fd conn' = - 1 then {} else {c_fd conn'}) = set (k_open k)"
proof -
  obtain ret1 k1 conn1 where acc: "conn_socket_accept listener k conn = (ret1, k1, conn1)" by (rule prod_cases3)
  note open1 = socket_accept_open[OF acc assms(2,3)]
  have "k_open k' = k_open k1 \<and> c_fd conn' = c_fd conn1"
    using assms(1) acc
    by (cases "c_type conn") (auto simp: conn_accept_def conn_tls_accept_def Let_def split: if_splits option.splits)
  with open1 show ?thesis by metis
qed

lemma create_fd [simp]: "c_fd (conn_create ct port addr) = - 1"
  by (cases ct) (simp_all add: conn_create_def conn_socket_create_def conn_tls_create_def)

lemma update_returns:
  assumes "abi_ok abi" "\<forall>p f. fs p = Inr f \<longrightarrow> file_ok f" "table_ok caches"
    and "\<forall>ds. dir = Inr ds \<longrightarrow> (\<forall>(n, r) \<in> set ds. r \<longrightarrow> length (path @ ''/'' @ n) < PATH_MAX)"
  shows "\<exists>update' caches'. httpd_update_cache abi fs path dir now (update, caches) = Some (Inr (update', caches')) \<and> table_ok caches'"
proof (cases dir)
  case (Inl e)
  with assms(3) show ?thesis by (simp add: httpd_update_cache_def rawlog_parse_all_def)
next
  case (Inr ds)
  with parse_entries_keeps[OF assms(1) _ assms(3), of fs ds path] assms(2,4) obtain c1 where
    "parse_entries abi fs path ds caches = Some (Inr c1)" "table_ok c1" by blast
  with Inr assms(3) show ?thesis by (simp add: httpd_update_cache_def rawlog_parse_all_def table_ok_sort)
qed

text \<open>What holds between two rounds.\<close>

definition server_ok :: "int set \<Rightarrow> server \<Rightarrow> bool" where
  "server_ok fds sv \<longleftrightarrow> set (k_open (sv_kernel sv)) = fds \<and> out_idle (sv_op sv) \<and> table_ok (sv_caches sv)"

lemma round_keeps:
  assumes "he_reg env = both_types" "abi_ok (he_abi env)" "round_ok log_path rd" "server_ok fds sv"
    and "httpd_round env log_path rd sv = Some (Inr sv')"
  shows "server_ok fds sv'"
proof (cases "rd_epoll rd")
  case (Ep_ready listener)
  let ?conn = "conn_create (c_type listener) (- 1) None" and ?k = "rd_kernel rd (sv_kernel sv)"
  let ?env = "env\<lparr>he_fs := rd_fs rd, he_caches := sv_caches sv\<rparr>"
  have fresh: "accepts_fresh ?k" "k_open ?k = k_open (sv_kernel sv)" using assms(3) by (simp_all add: round_ok_def)
  have ok: "set (k_open (sv_kernel sv)) = fds" "out_idle (sv_op sv)" "table_ok (sv_caches sv)"
    using assms(4) by (simp_all add: server_ok_def)
  from assms(5) Ep_ready obtain ret k conn where acc: "conn_accept both_types listener ?k ?conn = Inr (ret, k, conn)"
    by (cases "conn_accept both_types listener ?k ?conn") (auto simp: httpd_round_def assms(1) Let_def)
  from accept_open[OF acc create_fd fresh(1)] fresh(2) ok(1)
  have fds: "set (k_open k) - (if c_fd conn = - 1 then {} else {c_fd conn}) = fds" by simp
  show ?thesis
  proof (cases "ret < 0")
    case True
    obtain k' c' where c: "conn_close both_types k conn = Inr (k', c')" using conn.close_total by blast
    with conn.close_keeps_others[OF c] fds True acc assms(5) Ep_ready ok show ?thesis
      by (auto simp: httpd_round_def assms(1) Let_def server_ok_def)
  next
    case False
    from assms(5) Ep_ready acc False obtain op' w' where
      h: "httpd_handle_request ?env (rd_start rd) (rd_ticks rd) (sv_op sv) (k, conn) = Inr (op', w')"
      by (cases "httpd_handle_request ?env (rd_start rd) (rd_ticks rd) (sv_op sv) (k, conn)")
        (auto simp: httpd_round_def assms(1) Let_def)
    from update_returns[OF assms(2), of "rd_fs_later rd" "sv_caches sv" "rd_dir rd" log_path "rd_now rd" "sv_update sv"] assms(3) ok(3)
    obtain update' caches' where
      u: "httpd_update_cache (he_abi env) (rd_fs_later rd) log_path (rd_dir rd) (rd_now rd) (sv_update sv, sv_caches sv)
        = Some (Inr (update', caches'))" "table_ok caches'" unfolding round_ok_def by blast
    have "released (k, conn) w'" by (rule handle_settles[OF _ h]) (simp add: assms(1))
    with fds have "set (k_open (fst w')) = fds" unfolding released_def by (simp split: if_splits)
    with h u acc False assms(5) Ep_ready handle_idle[OF ok(2) h] show ?thesis
      by (auto simp: httpd_round_def assms(1) Let_def server_ok_def split: prod.splits)
  qed
qed (use assms in \<open>auto simp: httpd_round_def split: if_splits\<close>)

lemma served_keeps:
  assumes "served env log_path sv0 rds sv" "he_reg env = both_types" "abi_ok (he_abi env)" "\<forall>rd \<in> set rds. round_ok log_path rd"
    and "server_ok fds sv0"
  shows "server_ok fds sv"
  using assms(1,4)
proof induction
  case served_start
  then show ?case by (simp add: assms(5))
next
  case (served_round rds sv rd sv')
  then show ?case by (auto intro: round_keeps[OF assms(2,3)])
qed

text \<open>The relation is what running the rounds computes, so a state is reached by its rounds in one way only.\<close>

inductive_cases served_none [elim!]: "served env log_path sv0 [] sv"
inductive_cases served_snoc: "served env log_path sv0 (rds @ [rd]) sv"

lemma rounds_snoc:
  "httpd_rounds env log_path (rds @ [rd]) sv0 = and_run (httpd_rounds env log_path rds sv0) (httpd_round env log_path rd)"
  by (induction rds arbitrary: sv0) (auto simp: and_run_def split: option.splits sum.splits)

lemma served_computed: "served env log_path sv0 rds sv \<longleftrightarrow> httpd_rounds env log_path rds sv0 = Some (Inr sv)"
proof (induction rds arbitrary: sv rule: rev_induct)
  case Nil
  then show ?case by (auto intro: served.served_start)
next
  case (snoc rd rds)
  show ?case
  proof
    assume "served env log_path sv0 (rds @ [rd]) sv"
    then show "httpd_rounds env log_path (rds @ [rd]) sv0 = Some (Inr sv)"
      by (rule served_snoc) (auto simp: rounds_snoc snoc.IH)
  next
    assume "httpd_rounds env log_path (rds @ [rd]) sv0 = Some (Inr sv)"
    then obtain sv1 where "httpd_rounds env log_path rds sv0 = Some (Inr sv1)" "httpd_round env log_path rd sv1 = Some (Inr sv)"
      by (auto simp: rounds_snoc and_run_def split: option.splits sum.splits)
    with snoc.IH show "served env log_path sv0 (rds @ [rd]) sv" by (auto intro: served.served_round)
  qed
qed

text \<open>A round ends: with the next state of the server, with a fault, or with the end of the program.\<close>

lemma round_ends:
  assumes "abi_ok (he_abi env)" "round_ok log_path rd" "table_ok (sv_caches sv)"
  shows "\<exists>r. httpd_round env log_path rd sv = Some r"
proof -
  have some: "(\<And>x. g x \<noteq> None) \<Longrightarrow> and_run (Some m) g \<noteq> None" for m :: "'x res" and g :: "'x \<Rightarrow> server run"
    by (cases m) auto
  have ite: "a \<noteq> None \<Longrightarrow> b \<noteq> None \<Longrightarrow> (if t then a else b) \<noteq> None" for a b :: "server run" and t by simp
  have pair: "(\<And>a b. g a b \<noteq> None) \<Longrightarrow> (case q of (a, b) \<Rightarrow> g a b) \<noteq> None" for q and g :: "'x \<Rightarrow> 'y \<Rightarrow> server run"
    by (cases q) simp
  have upd: "and_run (httpd_update_cache (he_abi env) (rd_fs_later rd) log_path (rd_dir rd) (rd_now rd) (sv_update sv, sv_caches sv))
      (\<lambda>(update, caches). Some (f update caches)) \<noteq> None" for f :: "time_t \<Rightarrow> cache_table \<Rightarrow> server res"
    using update_returns[OF assms(1), of "rd_fs_later rd" "sv_caches sv" "rd_dir rd" log_path "rd_now rd" "sv_update sv"] assms(2,3)
    unfolding round_ok_def by fastforce
  have "httpd_round env log_path rd sv \<noteq> None"
  proof (cases "rd_epoll rd")
    case (Ep_ready listener)
    show ?thesis
      unfolding httpd_round_def Let_def Ep_ready epoll_answer.case
      by (intro some ite pair upd) simp_all
  qed (simp_all add: httpd_round_def)
  then show ?thesis by blast
qed

section \<open>Requests that do not fit\<close>

text \<open>
  \<open>inbuf\<close> has no room for a terminator: when it is full and there is no empty line in it, \<open>strstr\<close> reads on behind it.
\<close>

lemma strstr_runs_out:
  "(\<And>i. i < length s \<Longrightarrow> \<not> prefix needle (drop i s)) \<Longrightarrow> NUL \<notin> set s \<Longrightarrow> c_strstr s needle = Inl OutOfBounds"
proof (induction s)
  case (Cons c s)
  have "\<not> prefix needle (c # s)" using Cons.prems(1)[of 0] by simp
  moreover have "c_strstr s needle = Inl OutOfBounds"
  proof (rule Cons.IH)
    fix i assume "i < length s" then show "\<not> prefix needle (drop i s)" using Cons.prems(1)[of "Suc i"] by simp
  qed (use Cons.prems(2) in simp)
  ultimately show ?case using Cons.prems(2) by auto
qed simp

lemma handle_full:
  assumes "willing (k, c)" "k_in k = In_data bs # es" "t < now + 100"
    and "length bs = INBUF_SIZE" "NUL \<notin> set bs" "\<And>i. i < INBUF_SIZE \<Longrightarrow> \<not> prefix CRLF2 (drop i bs)"
  shows "httpd_handle_request env now ((t, P_ready) # ticks) op (k, c) = Inl OutOfBounds"
proof -
  have up: "conn_up c" "c_fd c \<noteq> - 1" using assms(1) by (simp_all add: willing_def)
  have len: "0 < INBUF_SIZE" "4 \<le> INBUF_SIZE" by (simp_all add: INBUF_SIZE_def)
  have read: "conn_read INBUF_SIZE k c = (int INBUF_SIZE, bs, k\<lparr>k_in := es\<rparr>)"
    using assms(2,4) len by (simp add: read_up[OF up] k_recv_def)
  have "c_strstr bs CRLF2 = Inl OutOfBounds" by (rule strstr_runs_out) (use assms(4-6) in auto)
  then have "read_request ((t, P_ready) # ticks) (now + 100) (replicate INBUF_SIZE NUL) 0 (k, c) = Inl OutOfBounds"
    using assms(3,4) read len by (simp add: Let_def)
  then show ?thesis by (simp add: httpd_handle_request_def fd_call_willing[OF assms(1)])
qed

section \<open>The listeners\<close>

text \<open>What the options ask for: the type, the port and the address of each listener.\<close>

definition wanted :: "atophttpd_context \<Rightarrow> (conn_type \<times> int \<times> string option) list" where
  "wanted ctx = (if cx_port ctx > 0 then [(CT_Socket, cx_port ctx, cx_addr ctx)] else [])
     @ (if tls_port (cx_tls ctx) > 0 then [(CT_TLS, tls_port (cx_tls ctx), tls_addr (cx_tls ctx))] else [])"

definition endpoint :: "connection \<Rightarrow> conn_type \<times> int \<times> string option" where
  "endpoint c = (c_type c, c_port c, c_bindaddr c)"

lemma socket_listen_up:
  "conn_socket_listen k l = Inr (ret, k', l') \<Longrightarrow> \<not> ret < 0 \<Longrightarrow> endpoint l' = endpoint l \<and> c_fd l' \<noteq> - 1"
  by (auto simp: conn_socket_listen_def endpoint_def and_then_Inr_iff EINVAL_def split: if_splits option.splits)

lemma listen_up:
  "conn_listen both_types k l = Inr (ret, k', l') \<Longrightarrow> \<not> ret < 0 \<Longrightarrow> endpoint l' = endpoint l \<and> c_fd l' \<noteq> - 1"
  by (cases "c_type l") (auto simp: conn_listen_def conn_tls_listen_def intro: socket_listen_up dest: socket_listen_up)

lemma listen_all_up:
  "listen_all both_types ls k = Inr (cs, k') \<Longrightarrow>
     map endpoint cs = map endpoint (List.map_filter id ls) \<and> (\<forall>c \<in> set cs. c_fd c \<noteq> - 1)"
proof (induction ls arbitrary: k cs k')
  case (Cons o' ls)
  show ?case
  proof (cases o')
    case None
    with Cons show ?thesis by (simp add: List.map_filter_simps)
  next
    case (Some l)
    with Cons.prems obtain ret k1 l1 k2 cs1 where l1: "conn_listen both_types k l = Inr (ret, k1, l1)" "\<not> ret < 0"
      and cs: "listen_all both_types ls k2 = Inr (cs1, k')" "cs = l1 # cs1"
      by (auto simp: and_then_Inr_iff split: if_splits prod.splits)
    from listen_up[OF l1] Cons.IH[OF cs(1)] cs(2) Some show ?thesis by (simp add: List.map_filter_simps)
  qed
qed (simp add: List.map_filter_simps)

lemma types_found:
  "get_conntype_index_by_name ''tcp'' both_types = 0" "get_conntype_by_name ''tcp'' both_types = Some CT_Socket"
  "get_conntype_index_by_name ''tls'' both_types = 1" "get_conntype_by_name ''tls'' both_types = Some CT_TLS"
  by code_simp+

lemma create_endpoint [simp]: "endpoint (conn_create ct port addr) = (ct, port, addr)"
  by (cases ct) (simp_all add: endpoint_def conn_create_def conn_socket_create_def conn_tls_create_def)

lemma listeners_wanted:
  assumes "httpd_listeners both_types ctx sa k = Inr (ls, k')"
  shows "map endpoint (List.map_filter id ls) = wanted ctx"
proof -
  have slots: "replicate CONN_TYPE_MAX None = [None, None, None, None, None, None, None, None]"
    by (simp add: CONN_TYPE_MAX_def eval_nat_numeral)
  show ?thesis
    using assms unfolding httpd_listeners_def slots
    by (auto simp: types_found wanted_def List.map_filter_simps Let_def split: if_splits prod.splits)
qed

lemma start_listens:
  assumes "httpd_start both_types ls k = Inr (cs, k')"
  shows "map endpoint cs = map endpoint (List.map_filter id ls) \<and> cs \<noteq> [] \<and> (\<forall>c \<in> set cs. c_fd c \<noteq> - 1)"
  using assms listen_all_up by (fastforce simp: httpd_start_def and_then_Inr_iff Let_def split: if_splits prod.splits)

end
