(* ===== verification/HttpdServed.thy ===== *)
theory HttpdServed
  imports HttpdProofs
begin

text \<open>
  The properties of the server, from the bytes that a client sends to the bytes that it gets: samples, pages, what is
  not found and what does not fit; and what holds between two rounds.
\<close>

section \<open>Bytes of a request\<close>

lemma prefix_starts_later:
  assumes "prefix n (drop i (a @ r))" "i < length a" "n \<noteq> []" "hd n \<notin> set a"
  shows False
proof -
  have "drop i (a @ r) = a ! i # drop (Suc i) (a @ r)" using assms(2) by (simp add: Cons_nth_drop_Suc[symmetric])
  with assms(1,3) have "hd n = a ! i" by (cases n) auto
  with assms(2,4) show False by simp
qed

lemma CRLF2_hd [simp]: "hd CRLF2 = CHR 0x0D"
  by (simp add: CRLF2_def CRLF_def)

text \<open>A request without headers.\<close>

definition request_bytes :: "bytes \<Rightarrow> bytes" where
  "request_bytes req = ''GET /'' @ req @ '' HTTP/1.1'' @ CRLF2"

lemma request_bytes_asks:
  assumes "NUL \<notin> set req" "CHR ''H'' \<notin> set req" "CHR 0x0D \<notin> set req" "length req \<le> URL_LEN"
  shows "asks_for (request_bytes req) req"
proof -
  let ?l = "''GET /'' @ req @ '' HTTP/1.1''" and ?a = "''GET /'' @ req @ '' ''"
  have 1: "request_bytes req = ?l @ CRLF2" and 2: "request_bytes req = ?a @ ''HTTP/1.1'' @ CRLF2"
    by (simp_all add: request_bytes_def)
  have "complete (request_bytes req)"
    unfolding complete_def
  proof (intro conjI allI impI)
    show "\<exists>l. request_bytes req = l @ CRLF2" using 1 by blast
    show "NUL \<notin> set (request_bytes req)" using assms(1) by (simp add: request_bytes_def)
    show "length (request_bytes req) \<le> INBUF_SIZE" using assms(4) by (simp add: request_bytes_def URL_LEN_def INBUF_SIZE_def)
    fix i assume "i + 4 < length (request_bytes req)"
    then have "i < length ?l" by (simp add: request_bytes_def)
    then show "\<not> prefix CRLF2 (drop i (request_bytes req))"
      unfolding 1 using prefix_starts_later[of CRLF2 i ?l CRLF2] assms(3) by auto
  qed
  moreover have "\<not> prefix ''HTTP/1.1'' (drop i (request_bytes req))" if "i < length req + 6" for i
    unfolding 2 using prefix_starts_later[of "''HTTP/1.1''" i ?a "''HTTP/1.1'' @ CRLF2"] assms(2) that by auto
  ultimately show ?thesis using assms(4) by (auto simp: asks_for_def request_bytes_def)
qed

text \<open>Where a request is longer than the array \<open>httpreq\<close> has room for, there is no terminator.\<close>

lemma asks_for_NUL: "asks_for bs req \<Longrightarrow> NUL \<notin> set req"
  by (auto simp: asks_for_def complete_def)

lemma httpreq_terminated:
  "length req < URL_LEN \<Longrightarrow> req @ replicate (URL_LEN - length req) NUL = req @ NUL # replicate (URL_LEN - length req - 1) NUL"
  by (cases "URL_LEN - length req") auto

section \<open>Answers\<close>


definition sample_cache :: cache_t where
  "sample_cache = (fresh_cache ''/a'')\<lparr>elems := [\<lparr>elem_time = 10, elem_off = 1\<rparr>]\<rparr>"

definition sample_env :: http_env where
  "sample_env = \<lparr>he_abi = sample_abi, he_jenv = zero_jenv, he_reg = both_types, he_compress = \<lambda>_. (False, []),
     he_asset = \<lambda>_. ''page'', he_fs = \<lambda>_. Inr (sample_file sample_log), he_caches = [sample_cache]\<rparr>"

definition sample_stored :: stored where
  "sample_stored = \<lparr>sr_cache = sample_cache, sr_file = sample_file sample_log, sr_pre = ''M'',
     sr_record = [CHR 0x0A, CHR 0x01, CHR 0x01, CHR 0x01], sr_sstat = ''s'', sr_tstat = ''t'', sr_post = [],
     sr_sample = ''s'', sr_tasks = ''t''\<rparr>"

lemma sample_env_ok: "env_ok sample_env"
  using zero_ok by (simp add: env_ok_def sample_env_def)

lemma sample_is_stored: "is_stored sample_env 10 sample_stored"
proof -
  have pick: "pick_record 10 [sample_cache] = Inr (Some (sample_cache, 1))"
    by (simp add: pick_record_def cache_get_def cache_covering_def sample_cache_def Let_def)
  have ts: "tasks_of sample_abi 1 ''t'' = [zero_tstat]" by (simp add: tasks_of_def)
  have ps: "is_process zero_tstat" "is_active zero_tstat" by (simp_all add: task_kinds zero_tstat_def)
  have rr: "unat (byte_word (CHR 0x01)) = 1" by (simp add: byte_word_def)
  have dev: "dev_ok zero_jenv (devtstat_of (dec_record sample_abi rb) [zero_tstat])" for rb
    using zero_dev_ok ps by (simp add: dev_ok_def one_task_def devtstat_of_def)
  show ?thesis
    using pick ts ps rr dev zero_ok
    by (simp add: is_stored_def sample_env_def sample_stored_def stored_rr_def stored_tasks_def stored_sample_def
        sample_file_ok sample_log_def uncompressed_to_def is_active_process_def)
qed

text \<open>A request that arrives in two packets, with a poll without an event between them.\<close>

definition two_packets :: "bytes \<Rightarrow> in_event list" where
  "two_packets bs = [In_data (take 10 bs), In_data (drop 10 bs)]"

lemma two_packets_delivered:
  "10 < length bs \<Longrightarrow> delivered 100 [(1, P_ready), (20, P_zero), (30, P_ready)] (two_packets bs) bs"
  using next_packet[of 1 100 "take 10 bs" "[(20, P_zero), (30, P_ready)]" "[In_data (drop 10 bs)]" "drop 10 bs"]
    no_event[of 20 100 "[(30, P_ready)]" "[In_data (drop 10 bs)]" "drop 10 bs"] last_packet[of 30 100 "drop 10 bs" "[]" "[]"]
  by (cases bs) (simp_all add: two_packets_def)


text \<open>
  C5. How the network cuts the request into packets makes no difference: whenever all of it arrives before the
  deadline, with whatever polls without an event and repeated reads between, the handler for exactly the bytes
  between \<open>GET /\<close> and the version runs, and then the connection is closed.
\<close>

theorem httpd_handle_request_fragments:
  assumes "willing (k, c)" "delivered (now + 100) ticks (k_in k) bs" "asks_for bs req" "length req < URL_LEN"
  shows "\<exists>es e. httpd_handle_request env now ticks op (k, c)
    = and_then (http_process_request env (req @ NUL # replicate (URL_LEN - length req - 1) NUL) op (k\<lparr>k_in := es, k_errno := e\<rparr>, c))
        (\<lambda>(op, w). and_then (wire_close (he_reg env) w) (\<lambda>w. Inr (op, w)))"
  using handle_delivered[OF assms(1-3)] unfolding httpreq_terminated[OF assms(4)] .

lemma sample_delivered:
  assumes "10 < length bs"
  obtains k c where "sample_wire fds (two_packets bs) [] = (k, c)" "willing (k, c)" "k_in k = two_packets bs" "k_out k = []"
    "k_open k = fds" "c_fd c = 4" "delivered (0 + 100) [(1, P_ready), (20, P_zero), (30, P_ready)] (k_in k) bs"
proof -
  obtain k c where w: "sample_wire fds (two_packets bs) [] = (k, c)" by fastforce
  with sample_wire_sel[of fds "two_packets bs" "[]"] sample_willing[of fds "two_packets bs"] two_packets_delivered[OF assms]
    that show thesis by simp
qed

theorem httpd_handle_request_fragments_witness:
  "\<exists>k. httpd_handle_request sample_env 0 [(1, P_ready), (20, P_zero), (30, P_ready)] empty_output
      (sample_wire [0, 4] (two_packets (request_bytes ''help'')) [])
    = and_then (http_process_request sample_env (''help'' @ NUL # replicate 1019 NUL) empty_output (k, sample_conn))
        (\<lambda>(op, w). and_then (wire_close both_types w) (\<lambda>w. Inr (op, w)))"
proof -
  have asks: "asks_for (request_bytes ''help'') ''help''" by (rule request_bytes_asks) (simp_all add: URL_LEN_def)
  have "10 < length (request_bytes ''help'')" by (simp add: request_bytes_def)
  then obtain k c where w: "sample_wire [0, 4] (two_packets (request_bytes ''help'')) [] = (k, c)" "willing (k, c)"
    "delivered (0 + 100) [(1, P_ready), (20, P_zero), (30, P_ready)] (k_in k) (request_bytes ''help'')"
    by (rule sample_delivered)
  from w(1) have c: "c = sample_conn" by (simp add: sample_wire_def)
  have l: "length ''help'' < URL_LEN" "URL_LEN - length ''help'' - 1 = 1019" "he_reg sample_env = both_types"
    by (simp_all add: URL_LEN_def sample_env_def)
  show ?thesis
    using httpd_handle_request_fragments[OF w(2,3) asks l(1), of sample_env empty_output] unfolding w(1) c l(2,3) by blast
qed

text \<open>
  C38. What is not found is not answered with a complete message: for a path that is not in the table the client gets the
  status line alone, without the empty line that ends the head of an answer, and then the end of the stream.
\<close>

theorem httpd_404_unterminated:
  assumes "he_reg env = both_types" "willing (k, c)" "delivered (now + 100) ticks (k_in k) bs" "asks_for bs req"
    and "length req < URL_LEN" "CHR ''?'' \<notin> set req" "req \<noteq> []" "map_of (routes env []) req = None"
  shows "\<exists>w'. httpd_handle_request env now ticks op (k, c) = Inr (op, w') \<and> k_out (fst w') = k_out k @ http_404
    \<and> head_lines [] http_404 = None \<and> released (k, c) w'"
proof -
  have nul: "NUL \<notin> set req" by (rule asks_for_NUL[OF assms(4)])
  have same: "map_of (routes env r) req = None" for r
    using assms(8) by (auto simp: routes_def split: if_splits)
  have "\<exists>op' w'. http_process_request env (req @ replicate (URL_LEN - length req) NUL) op w = Inr (op', w') \<and> op' = op
      \<and> (\<exists>t. t = http_404 \<and> (k_out (fst w') = k_out (fst w) @ t \<and> untouched w w'))" if w: "willing w" for w
    unfolding httpreq_terminated[OF assms(5)]
    using request_routed[of req "[]" env "replicate (URL_LEN - length req - 1) NUL" op w] nul assms(5-7) same not_found_willing[OF w]
    by (simp add: http_404_answer_def untouched_def)
  note run = this
  from handle_delivered[OF assms(2-4), of env op] obtain es e where
    h: "httpd_handle_request env now ticks op (k, c)
      = and_then (http_process_request env (req @ replicate (URL_LEN - length req) NUL) op (k\<lparr>k_in := es, k_errno := e\<rparr>, c))
        (\<lambda>(op, w). and_then (wire_close both_types w) (\<lambda>w. Inr (op, w)))" unfolding assms(1) by blast
  have "willing (k\<lparr>k_in := es, k_errno := e\<rparr>, c)" using assms(2) by (simp add: willing_def)
  from run[OF this] obtain w1 where
    1: "http_process_request env (req @ replicate (URL_LEN - length req) NUL) op (k\<lparr>k_in := es, k_errno := e\<rparr>, c) = Inr (op, w1)"
      "k_out (fst w1) = k_out k @ http_404" "untouched (k, c) w1" by (auto simp: untouched_def)
  from wire_close_releases[of w1] obtain w' where 2: "wire_close both_types w1 = Inr w'" "released w1 w'" by blast
  have "head_lines [] http_404 = None" by code_simp
  with h 1 2 close_out[OF 2(1)] released_after[OF 1(3) 2(2)] show ?thesis by simp
qed

theorem httpd_404_unterminated_witness:
  "\<exists>w'. httpd_handle_request sample_env 0 [(1, P_ready), (20, P_zero), (30, P_ready)] empty_output
      (sample_wire [0, 4] (two_packets (request_bytes ''secret'')) []) = Inr (empty_output, w')
    \<and> k_out (fst w') = ''HTTP/1.1 404 Not Found'' @ CRLF \<and> set (k_open (fst w')) = {0}"
proof -
  have asks: "asks_for (request_bytes ''secret'') ''secret''" by (rule request_bytes_asks) (simp_all add: URL_LEN_def)
  have "10 < length (request_bytes ''secret'')" by (simp add: request_bytes_def)
  then obtain k c where w: "sample_wire [0, 4] (two_packets (request_bytes ''secret'')) [] = (k, c)" "willing (k, c)"
    "k_out k = []" "k_open k = [0, 4]" "c_fd c = 4"
    "delivered (0 + 100) [(1, P_ready), (20, P_zero), (30, P_ready)] (k_in k) (request_bytes ''secret'')"
    by (rule sample_delivered)
  from httpd_404_unterminated[OF _ w(2,6) asks, of sample_env empty_output] w(3-5) show ?thesis
    unfolding w(1) by (auto simp: sample_env_def URL_LEN_def routes_def released_def http_404_def)
qed

text \<open>The pages of the program: the path, the body and the type of each.\<close>

definition pages :: "http_env \<Rightarrow> (string \<times> bytes \<times> content_type) list" where
  "pages env = [(''ping'', ''pong'' @ CRLF, Ct_html), (''help'', he_asset env A_help, Ct_html),
     (''favicon.ico'', he_asset env A_favicon, Ct_html), (''index.html'', he_asset env A_index, Ct_html),
     ([], he_asset env A_index, Ct_html), (''js/atop.js'', he_asset env A_atop_js, Ct_javascript),
     (''js/atop_parse.js'', he_asset env A_atop_parse_js, Ct_javascript),
     (''js/atop_compare_fc.js'', he_asset env A_atop_compare_fc_js, Ct_javascript),
     (''css/atop.css'', he_asset env A_css, Ct_css), (''template_header'', he_asset env A_header, Ct_html)]"

lemma pages_routed_all:
  "\<forall>(p, body, ct) \<in> set (pages env). NUL \<notin> set p \<and> CHR ''?'' \<notin> set p
     \<and> (if p = [] then http_index env op w
        else case map_of (routes env r) p of None \<Rightarrow> http_404_answer op w | Some h \<Rightarrow> h op w) = http_answer env body ct op w"
  by (simp add: pages_def routes_def static_pages)

lemma pages_routed:
  "(p, body, ct) \<in> set (pages env) \<Longrightarrow>
     NUL \<notin> set p \<and> CHR ''?'' \<notin> set p
     \<and> (if p = [] then http_index env op w
        else case map_of (routes env r) p of None \<Rightarrow> http_404_answer op w | Some h \<Rightarrow> h op w) = http_answer env body ct op w"
  using pages_routed_all[of env op w r] by fast



section \<open>The server between two requests\<close>

text \<open>
  C16. Whatever the client sends and the kernel answers: when \<open>httpd_handle_request\<close> returns, the
  connection is down, its descriptor is released and no other is.
\<close>

theorem httpd_handle_request_closes:
  assumes "he_reg env = both_types" "httpd_handle_request env now ticks op (k, c) = Inr (op', (k', c'))"
  shows "\<not> conn_up c' \<and> c_fd c' = - 1 \<and> set (k_open k') = set (k_open k) - (if c_fd c = - 1 then {} else {c_fd c})"
  using handle_settles[OF assms] by (simp add: released_def)

text \<open>A client that sends nothing in time.\<close>

lemma silent_handle:
  assumes "he_reg env = both_types" "willing (k, c)"
  shows "\<exists>k' c'. httpd_handle_request env 0 [(200, P_zero)] op (k, c) = Inr (op, (k', c'))"
proof -
  from wire_close_releases[of "(k, c)"] obtain k' c' where "wire_close both_types (k, c) = Inr (k', c')" by auto
  then show ?thesis by (simp add: httpd_handle_request_def fd_call_willing[OF assms(2)] assms(1))
qed

theorem httpd_handle_request_closes_witness:
  "\<exists>k' c'. httpd_handle_request sample_env 0 [(200, P_zero)] empty_output (sample_wire [0, 4] [] []) = Inr (empty_output, (k', c')) \<and> set (k_open k') = {0}"
proof -
  obtain k c where w: "sample_wire [0, 4] [] [] = (k, c)" "willing (k, c)" "k_open k = [0, 4]" "c_fd c = 4"
    using sample_willing[of "[0, 4]" "[]"] sample_wire_sel[of "[0, 4]" "[]" "[]"]
    by (cases "sample_wire [0, 4] [] []") auto
  have reg: "he_reg sample_env = both_types" by (simp add: sample_env_def)
  from silent_handle[OF reg w(2), of empty_output] obtain k' c' where
    h: "httpd_handle_request sample_env 0 [(200, P_zero)] empty_output (k, c) = Inr (empty_output, (k', c'))" by blast
  have "set (k_open k') = set (k_open k) - (if c_fd c = - 1 then {} else {c_fd c})"
    using httpd_handle_request_closes[OF reg h] by blast
  moreover have "set [0, 4 :: int] - {4} = {0}" by auto
  ultimately have "set (k_open k') = {0}" unfolding w(3,4) by simp
  with h show ?thesis unfolding w(1) by blast
qed


text \<open>A client that connects and sends nothing, in the first second of the server.\<close>

definition silent_round :: round where
  "silent_round = \<lparr>rd_epoll = Ep_ready sample_conn, rd_start = 0, rd_ticks = [(200, P_zero)],
     rd_kernel = \<lambda>k. k\<lparr>k_accept := [Inr (1 + Max (insert 0 (set (k_open k))))]\<rparr>, rd_fs = \<lambda>_. Inl 2, rd_now = 1,
     rd_fs_later = \<lambda>_. Inl 2, rd_dir = Inl 2\<rparr>"

definition first_server :: server where
  "first_server = \<lparr>sv_op = empty_output, sv_caches = [], sv_update = 0, sv_kernel = sample_kernel\<lparr>k_open := [0, 3]\<rparr>\<rparr>"

lemma silent_round_ok: "round_ok path silent_round"
proof -
  have "2 + Max (insert 0 (set (k_open k))) \<noteq> 0 \<and> 1 + Max (insert 0 (set (k_open k))) \<notin> set (k_open k)" for k :: kernel
  proof -
    have le: "x \<le> Max (insert 0 (set (k_open k)))" if "x \<in> insert 0 (set (k_open k))" for x using that by (simp del: Max_insert)
    have "0 \<le> Max (insert 0 (set (k_open k)))" by (rule le) simp
    moreover have "1 + Max (insert 0 (set (k_open k))) \<notin> set (k_open k)" proof
      assume "1 + Max (insert 0 (set (k_open k))) \<in> set (k_open k)"
      then have "1 + Max (insert 0 (set (k_open k))) \<le> Max (insert 0 (set (k_open k)))" by (intro le) (rule insertI2)
      then show False by linarith
    qed
    ultimately show ?thesis by linarith
  qed
  then show ?thesis by (simp add: round_ok_def silent_round_def accepts_fresh_def del: Max_insert)
qed

lemma silent_round_run: "\<exists>sv. httpd_round sample_env ''/var'' silent_round first_server = Some (Inr sv)"
proof -
  let ?k = "sample_kernel\<lparr>k_open := [4, 0, 3], k_accept := []\<rparr>" and ?c = "(conn_create CT_Socket (- 1) None)\<lparr>c_fd := 4\<rparr>"
  let ?env = "sample_env\<lparr>he_fs := \<lambda>_. Inl 2, he_caches := []\<rparr>"
  have acc: "conn_accept both_types sample_conn (rd_kernel silent_round (sv_kernel first_server)) (conn_create CT_Socket (- 1) None)
      = Inr (0, ?k, ?c)"
    by (simp add: silent_round_def first_server_def conn_accept_def conn_create_def conn_socket_create_def sample_conn_def
        conn_socket_accept_def sample_kernel_def)
  have "willing (?k, ?c)"
    by (simp add: willing_def conn_up_def conn_create_def conn_socket_create_def sample_kernel_def)
  then obtain k' c' where h: "httpd_handle_request ?env 0 [(200, P_zero)] empty_output (?k, ?c) = Inr (empty_output, (k', c'))"
    using silent_handle[of ?env ?k ?c empty_output] by (auto simp: sample_env_def)
  have up: "httpd_update_cache sample_abi (\<lambda>_. Inl 2) ''/var'' (Inl 2) 1 (0, []) = Some (Inr (0, []))"
    by (simp add: httpd_update_cache_def)
  have reg: "he_reg sample_env = both_types" "he_abi sample_env = sample_abi" by (simp_all add: sample_env_def)
  have rd: "rd_epoll silent_round = Ep_ready sample_conn" "rd_start silent_round = 0" "rd_ticks silent_round = [(200, P_zero)]"
    "rd_fs silent_round = (\<lambda>_. Inl 2)" "rd_now silent_round = 1" "rd_fs_later silent_round = (\<lambda>_. Inl 2)" "rd_dir silent_round = Inl 2"
    by (simp_all add: silent_round_def)
  have sv: "sv_op first_server = empty_output" "sv_caches first_server = []" "sv_update first_server = 0"
    by (simp_all add: first_server_def)
  have ct: "c_type sample_conn = CT_Socket" by (simp add: sample_conn_def)
  show ?thesis unfolding httpd_round_def rd epoll_answer.case reg sv ct Let_def acc by (simp add: h up)
qed




section \<open>Start\<close>

lemma registered_types: "conntype_initialize True k [] = both_types"
proof -
  have "\<not> strcaseeq (ct_get_type CT_TLS) (ct_get_type CT_Socket)" by code_simp
  then show ?thesis by (simp add: conntype_initialize_def conntype_register_def both_types_def CONN_TYPE_MAX_def)
qed


definition no_answers :: ssl_answers where
  "no_answers = \<lparr>sa_ctx_new = False, sa_use_cert = False, sa_use_key = False, sa_check_key = False, sa_load_ca = False, sa_errno = None\<rparr>"

definition default_listener :: connection where
  "default_listener = (conn_create CT_Socket 2867 (Some ''127.0.0.1''))\<lparr>c_fd := 3\<rparr>"

definition started_server :: server where
  "started_server = \<lparr>sv_op = empty_output, sv_caches = [], sv_update = 0,
     sv_kernel = sample_kernel\<lparr>k_errno := 98, k_open := [3, 0, 1, 2]\<rparr>\<rparr>"

lemma default_run:
  "httpd_main [] sample_abi (\<lambda>_. Inl 2) (Inr []) True no_answers empty_output sample_kernel
    = Some (Inr (Inr ([default_listener], config, both_types, started_server)))"
proof -
  have port: "dec_int 2867 = ''2867''" by code_simp
  have slots: "replicate CONN_TYPE_MAX None = [None, None, None, None, None, None, None, None]"
    by (simp add: CONN_TYPE_MAX_def eval_nat_numeral)
  have cfg: "cx_port config = 2867" "cx_addr config = Some ''127.0.0.1''" "tls_port (cx_tls config) = - 1"
    "cx_log_path config = Some ''/var/log/atop''" by (simp_all add: config_def)
  have sort: "cache_sort [] = []" by code_simp
  let ?k = "sample_kernel\<lparr>k_errno := 98, k_open := [3, 0, 1, 2]\<rparr>"
  have "listen_to_port 2867 (Some ''127.0.0.1'') AF_INET sample_kernel = Inr (3, ?k)"
    using port by (simp add: listen_to_port_def sample_kernel_def Let_def k_close_def)
  then have listen: "conn_listen both_types sample_kernel (conn_create CT_Socket 2867 (Some ''127.0.0.1'')) = Inr (0, ?k, default_listener)"
    by (simp add: conn_listen_def conn_create_def conn_socket_create_def conn_socket_listen_def default_listener_def)
  have calls: "k_call sample_kernel = (0, sample_kernel)" "k_call ?k = (0, ?k)" by (simp_all add: k_call_def sample_kernel_def)
  have "httpd_listeners both_types config no_answers sample_kernel
      = Inr ([Some (conn_create CT_Socket 2867 (Some ''127.0.0.1'')), None, None, None, None, None, None, None], sample_kernel)"
    unfolding httpd_listeners_def slots by (simp add: cfg types_found)
  then show ?thesis
    by (simp add: httpd_main_def cfg rawlog_parse_all_def sort registered_types httpd_start_def calls listen started_server_def)
qed


section \<open>What does not fit\<close>

text \<open>
  C36. A client that fills the buffer of 4096 bytes without an empty line makes the server read behind the buffer: it has no
  room for a terminator, and \<open>strstr\<close> comes before the test that the buffer is full.
\<close>

theorem httpd_full_buffer_overread:
  assumes "willing (k, c)" "k_in k = In_data bs # es" "t < now + 100"
    and "length bs = INBUF_SIZE" "NUL \<notin> set bs" "\<forall>i < INBUF_SIZE. \<not> prefix CRLF2 (drop i bs)"
  shows "httpd_handle_request env now ((t, P_ready) # ticks) op (k, c) = Inl OutOfBounds"
  using handle_full[OF assms(1-5)] assms(6) by blast

theorem httpd_full_buffer_overread_witness:
  "httpd_handle_request sample_env 0 [(1, P_ready)] empty_output (sample_wire [0, 4] [In_data (replicate 4096 CHR ''x'')] []) = Inl OutOfBounds"
proof -
  let ?bs = "replicate 4096 CHR ''x''"
  obtain k c where w: "sample_wire [0, 4] [In_data ?bs] [] = (k, c)" "willing (k, c)" "k_in k = [In_data ?bs]"
    using sample_willing[of "[0, 4]" "[In_data ?bs]"] sample_wire_sel[of "[0, 4]" "[In_data ?bs]" "[]"]
    by (cases "sample_wire [0, 4] [In_data ?bs] []") (simp)
  have no: "\<not> prefix CRLF2 (drop i ?bs)" if "i < INBUF_SIZE" for i
    by (rule notI, rule prefix_starts_later[of CRLF2 i ?bs "[]"]) (use that in \<open>simp_all add: INBUF_SIZE_def\<close>)
  show ?thesis
    unfolding w(1) by (rule httpd_full_buffer_overread[OF w(2,3)]) (use no in \<open>simp_all add: INBUF_SIZE_def\<close>)
qed

text \<open>
  C37. A request of exactly \<open>URL_LEN\<close> bytes passes the test of its length and fills the array \<open>httpreq\<close>: it is not
  terminated, and \<open>strlen\<close> reads behind it.
\<close>

theorem httpd_longest_request_overread:
  assumes "willing (k, c)" "delivered (now + 100) ticks (k_in k) bs" "asks_for bs req" "length req = URL_LEN"
  shows "httpd_handle_request env now ticks op (k, c) = Inl OutOfBounds"
proof -
  have "c_strlen req = Inl OutOfBounds"
    by (rule c_strlen_unterminated) (use asks_for_NUL[OF assms(3)] in \<open>simp add: terminated_def\<close>)
  then have "http_process_request env (req @ replicate (URL_LEN - length req) NUL) op w = Inl OutOfBounds" for w
    using assms(4) by (simp add: http_process_request_def)
  with handle_delivered[OF assms(1-3), of env op] show ?thesis by auto
qed

theorem httpd_longest_request_overread_witness:
  "httpd_handle_request sample_env 0 [(1, P_ready), (20, P_zero), (30, P_ready)] empty_output
      (sample_wire [0, 4] (two_packets (request_bytes (replicate 1024 CHR ''x''))) []) = Inl OutOfBounds"
proof -
  let ?req = "replicate 1024 CHR ''x''"
  have asks: "asks_for (request_bytes ?req) ?req"
    by (rule request_bytes_asks) (simp_all add: URL_LEN_def)
  have "10 < length (request_bytes ?req)" by (simp add: request_bytes_def)
  then obtain k c where w: "sample_wire [0, 4] (two_packets (request_bytes ?req)) [] = (k, c)" "willing (k, c)"
    "delivered (0 + 100) [(1, P_ready), (20, P_zero), (30, P_ready)] (k_in k) (request_bytes ?req)"
    by (rule sample_delivered)
  show ?thesis
    unfolding w(1) by (rule httpd_longest_request_overread[OF w(2,3) asks]) (simp add: URL_LEN_def)
qed

end
