(* ===== verification/Spec2Isabelle.thy ===== *)
theory Spec2Isabelle
  imports HttpdServed
begin

text \<open>
  A model of atophttpd, the HTTP server that answers with the system statistics that atop has logged, and the
  properties that make it correct.

  \<^bold>\<open>The program.\<close> At start the server reads the directory of the raw logs and keeps, per file, an index from time
  to offset (\<open>cache.c\<close>, filled by \<open>rawlog.c\<close>). Then it waits for connections, of plain TCP (\<open>socket.c\<close>)
  or TLS (\<open>tls.c\<close>), which it reaches through the table of functions of \<open>connection.h\<close>. One request at a time is
  read and answered (\<open>httpd.c\<close>): a file that is built into the program, or the sample of a time. For a sample the index
  gives the file and the offset, \<open>rawlog.c\<close> reads and uncompresses the record, \<open>json.c\<close> prints it into the one
  output buffer (\<open>output.c\<close>), and the hook \<open>http_show_samp_done\<close> sends the buffer. After the request the
  index is brought up to date, at most every three seconds.

  \<^bold>\<open>Parts and theories.\<close>

  \<^item> \<open>Prelude\<close>, \<open>CString\<close>, \<open>Printf\<close>, \<open>Qsort\<close>: what the C language and its library do. A byte array is a list, a
    pointer into it the rest of the list, an array that may hold bytes without a value a list of options. An operation
    that can fault has a result of type \<open>res\<close>: \<open>Inl\<close> of a fault (an access outside an object, a null
    dereference, a failed assertion, a read of an indeterminate value, a signed overflow, \<open>exit\<close>) or \<open>Inr\<close> of
    its value; \<open>and_then\<close> sequences them, and \<open>yields\<close> with its rules carries the proofs about values.
  \<^item> \<open>Cache\<close>: \<open>cache.c\<close>. \<open>cache_t\<close> and the table \<open>caches\<close>; \<open>cache_alloc\<close>, \<open>cache_find\<close>, \<open>cache_free\<close>,
    \<open>cache_set\<close>, \<open>cache_sort\<close>, \<open>cache_get\<close> with its binary search. Its contracts are the locales
    \<open>named_table\<close> and \<open>stable_sorts_by\<close>.
  \<^item> \<open>Output\<close>: \<open>output.c\<close>. \<open>output_buf\<close>, \<open>output_samp\<close>, \<open>output_samp_done\<close>; the contract of a client of the
    buffer is the locale \<open>byte_sink\<close>.
  \<^item> \<open>JsonData\<close>, \<open>Json\<close>: \<open>json.c\<close>, one function per printer with the format strings of the code, \<open>jsondef\<close>
    and \<open>jsonout\<close>. \<open>JsonSyntax\<close> is JSON as an automaton and \<open>JsonFormat\<close> a checker of format strings against it,
    proved sound; \<open>JsonProofs\<close> applies it to every printer, \<open>JsonOut\<close> to the whole answer, and \<open>JsonKeeps\<close>
    shows what printers keep of the buffer whatever they print.
  \<^item> \<open>Rawlog\<close>, \<open>RawlogProofs\<close>: \<open>rawlog.c\<close>. The loops over the records that need not end are a
    \<open>partial_function\<close>, so that a loop that does not return is \<open>None\<close>; \<open>run\<close> is the type of what may not return.
  \<^item> \<open>Connection\<close>, \<open>Socket\<close>, \<open>Tls\<close>, \<open>ConnOps\<close>: the registry of connection types, \<open>listen_to_port\<close>, the operations of
    both types and their dispatch. The record \<open>kernel\<close> holds the open descriptors, what was sent, what arrives and
    what the system calls answer. The contract of a connection is the locale \<open>closable\<close>, interpreted for TCP, for TLS and
    for the dispatch.
  \<^item> \<open>HttpArgs\<close>, \<open>HttpResponse\<close>, \<open>HttpRequest\<close>, \<open>Httpd\<close>: \<open>httpd.c\<close>, from the arguments of a request over the answers and
    the handlers to the loop of the server and \<open>main\<close>. A handler takes the output buffer and the pair of kernel and
    connection and returns both. The contract of everything that answers is the locale \<open>settling\<close>. \<open>HttpServe\<close>, \<open>HttpdProofs\<close> and
    \<open>HttpdServed\<close> hold the proofs that span all parts.

  \<^bold>\<open>What is shown.\<close> For the index: lookups find the record of a time or the next one, insertion and sorting keep the order,
  reading a file gives exactly its records, and reading it again after it has grown gives what reading it anew would. For the
  printers: the answer to a list of known labels is one valid JSON value, no buffer is overrun, and with \<open>hidecmdline\<close>
  no command line gets into it. For the connections: nothing is leaked and closing twice is harmless. For the server: it listens where its options say; a request
  is understood however it is cut into packets; samples and pages are served as complete HTTP answers with the right length; every
  path closes the connection; and between two rounds the server holds the descriptors it started with, an empty buffer and a
  good index. Further properties show what goes wrong and when: loops that do not end after a read error, arrays
  that are overrun by one byte or by a corrupt record, answers that are not complete.

  \<^bold>\<open>Bounds.\<close> Machine integers are words of the width that the code has on a 64-bit Linux (\<open>int\<close> 32, \<open>long\<close>,
  \<open>time_t\<close>, \<open>off_t\<close> and \<open>size_t\<close> 64 bits), or integers where the code cannot leave their range, which is then a condition of
  the definition. No fuel is used: the list of the polls of one request ends because the clock passes the deadline, which is 100
  milliseconds after the start.

  \<^bold>\<open>Parameters.\<close> Code that is not in the repository is a parameter. \<open>abi\<close>: the sizes and the layout of the structures of atop
  (its decoders), zlib's \<open>uncompress\<close>, whether \<open>malloc\<close> succeeds. \<open>jenv\<close>: constants of atop and of the system. \<open>http_env\<close>: zlib's
  \<open>compress\<close> and the files that the assembler includes. OpenSSL, the resolver and the kernel answer through \<open>kernel\<close>, \<open>ssl_answers\<close>
  and \<open>round\<close>. \<open>qsort\<close> is the stable merge sort of glibc, with the comparison functions of the code.

  \<^bold>\<open>Not modelled.\<close> Messages to standard output and the debug log; the texts of help and version; \<open>daemon\<close> and \<open>signal\<close>; the
  parsing of \<open>getopt_long\<close>, whose results are the argument of \<open>set_options\<close>; what OpenSSL does inside; the test program in \<open>cache.c\<close>;
  the web pages of \<open>src/http\<close>, the build files, the load generator and the packaging, which are not part of the server. Time passes
  only where the code reads a clock.
\<close>

end
